theory Spec2Isabelle
  imports Main "HOL-Library.AList"
begin

section \<open>The db child process: control messages\<close>

text \<open>
  The db child (\<^verbatim>\<open>src/unnamed/part_004\<close>) keeps three module-level flags, a table of
  open connections indexed by connection id, and a flag for a shutdown in progress. Its
  observable actions (log lines, destroyed connections, streams opened on the merge tree)
  are recorded in order in \<open>events\<close>.

  A JavaScript \<^verbatim>\<open>new Error('text')\<close> is the value \<open>Error ''text''\<close>; a socket is a
  \<open>conn\<close> with the id that \<^verbatim>\<open>getConnectionId\<close> gives it.
\<close>

datatype error = Error string

datatype conn = Conn (connId: string) (fd: nat)

datatype writer = ByConn conn | ByMerge

datatype sink = ToConn conn | ToLocalWriter

datatype event =
    LogErr error
  | LogWarning error
  | LogInfo string
  | ConnDestroy conn
  | ConnEnd conn
  | HeadLookupChannel conn
  | CreateLocalWriteStream writer
  | StartMerge sink
  | RemoteConn conn string bool
  | StatsDump string "string list"

record db_exec =
  headLookupReceived :: bool
  localDataChannelReceived :: bool
  autoMergeReceived :: bool
  connections :: "(string \<times> conn) list"
  shuttingDown :: bool
  listening :: bool
  sigtermOnce :: bool
  sigintOnce :: bool
  events :: "event list"

record msg =
  mtype :: string
  perspective :: string
  receiveBeforeSend :: bool

definition emit :: "event list \<Rightarrow> db_exec \<Rightarrow> db_exec" where
  "emit es s = s\<lparr>events := events s @ es\<rparr>"

text \<open>
  \<^verbatim>\<open>connErrorHandler(conn, connId, err)\<close>: a warning, then \<^verbatim>\<open>conn.destroy()\<close> inside
  \<^verbatim>\<open>try\<close>; without a connection the call throws a TypeError, which is caught and
  logged as a second warning.
\<close>

definition connErrorHandler :: "conn option \<Rightarrow> error \<Rightarrow> db_exec \<Rightarrow> db_exec" where
  "connErrorHandler c err s =
     (case c of
        Some cn \<Rightarrow> emit [LogWarning err, ConnDestroy cn] s
      | None \<Rightarrow> emit [LogWarning err, LogWarning (Error ''TypeError'')] s)"

definition registered :: "conn \<Rightarrow> db_exec \<Rightarrow> bool" where
  "registered c s = (map_of (connections s) (connId c) \<noteq> None)"

definition register :: "conn \<Rightarrow> db_exec \<Rightarrow> db_exec" where
  "register c s =
     s\<lparr>connections := AList.update (connId c) c (connections s)\<rparr>"

text \<open>The three connection handlers, up to the point where their streams are attached.\<close>

definition headLookupConnHandler :: "conn \<Rightarrow> db_exec \<Rightarrow> db_exec" where
  "headLookupConnHandler c s =
     (if registered c s
      then connErrorHandler (Some c) (Error ''connection already exists'') s
      else emit [HeadLookupChannel c] (register c s))"

definition localDataConnHandler :: "conn \<Rightarrow> db_exec \<Rightarrow> db_exec" where
  "localDataConnHandler c s =
     (if registered c s
      then connErrorHandler (Some c) (Error ''connection already exists'') s
      else emit [CreateLocalWriteStream (ByConn c), StartMerge (ToConn c)] (register c s))"

definition remoteDataConnHandler :: "conn \<Rightarrow> string \<Rightarrow> bool \<Rightarrow> db_exec \<Rightarrow> db_exec" where
  "remoteDataConnHandler c pe rbs s =
     (if registered c s
      then connErrorHandler (Some c) (Error ''connection already exists'') s
      else emit [RemoteConn c pe rbs] (register c s))"

text \<open>
  \<^verbatim>\<open>shutdown()\<close>: a second call only logs; the first one removes the message listener
  and ends every registered connection (the merge tree and the store are closed later,
  from the callbacks of the closing connections).
\<close>

definition shutdown :: "db_exec \<Rightarrow> db_exec" where
  "shutdown s =
     (if shuttingDown s then emit [LogInfo ''shutdown already in progress''] s
      else emit (LogInfo ''shutting down...'' # map (\<lambda>p. ConnEnd (snd p)) (connections s))
             (s\<lparr>shuttingDown := True, listening := False\<rparr>))"

text \<open>
  \<^verbatim>\<open>handleIncomingMsg(msg, conn)\<close>, with \<open>pers\<close> the names of the configured
  perspectives. The only uncaught exception is the one of a \<^verbatim>\<open>headLookup\<close> message that
  comes without a connection: \<^verbatim>\<open>conn.address()\<close> throws before anything is registered.
\<close>

definition handleIncomingMsg ::
  "string list \<Rightarrow> msg \<Rightarrow> conn option \<Rightarrow> db_exec \<Rightarrow> error + db_exec" where
  "handleIncomingMsg pers m c s =
     (if mtype m = ''headLookup'' then
        (if headLookupReceived s
         then Inr (connErrorHandler c (Error ''already registered a head lookup channel'')
                    (emit [LogErr (Error ''already registered a head lookup channel'')] s))
         else (case c of
                 None \<Rightarrow> Inl (Error ''TypeError'')
               | Some cn \<Rightarrow> Inr (headLookupConnHandler cn (s\<lparr>headLookupReceived := True\<rparr>))))
      else if mtype m = ''autoMerge'' then
        (if autoMergeReceived s
         then Inr (emit [LogErr (Error ''already auto merging'')] s)
         else if localDataChannelReceived s
         then Inr (emit [LogErr (Error ''already received a local data channel request'')] s)
         else Inr (emit [StartMerge ToLocalWriter, CreateLocalWriteStream ByMerge]
                    (s\<lparr>autoMergeReceived := True\<rparr>)))
      else if mtype m = ''localDataChannel'' then
        (case c of
           None \<Rightarrow> Inr (emit [LogErr (Error ''handleIncomingMsg connection missing'')] s)
         | Some cn \<Rightarrow>
             (if localDataChannelReceived s
              then Inr (connErrorHandler c (Error ''already received a local data channel request'')
                         (emit [LogErr (Error ''already received a local data channel request'')] s))
              else if autoMergeReceived s
              then Inr (emit [LogErr (Error ''already auto merging'')] s)
              else Inr (localDataConnHandler cn (s\<lparr>localDataChannelReceived := True\<rparr>))))
      else if mtype m = ''remoteDataChannel'' then
        (case c of
           None \<Rightarrow> Inr (emit [LogErr (Error ''handleIncomingMsg connection missing'')] s)
         | Some cn \<Rightarrow>
             (if perspective m \<notin> set pers
              then Inr (connErrorHandler c (Error ''unknown perspective'')
                         (emit [LogErr (Error ''unknown perspective'')] s))
              else Inr (remoteDataConnHandler cn (perspective m) (receiveBeforeSend m) s)))
      else if mtype m = ''kill'' then Inr (shutdown s)
      else Inr (connErrorHandler c (Error ''unknown message type'')
                 (emit [LogErr (Error ''unknown message type'')] s)))"

text \<open>The state in which \<^verbatim>\<open>postChroot\<close> sends \<^verbatim>\<open>listen\<close> to the parent.\<close>

definition listen_state :: db_exec where
  "listen_state =
     \<lparr>headLookupReceived = False, localDataChannelReceived = False,
      autoMergeReceived = False, connections = [], shuttingDown = False,
      listening = True, sigtermOnce = True, sigintOnce = True, events = []\<rparr>"

section \<open>The db child process: messages, closed connections and signals\<close>

text \<open>
  What reaches the process after \<^verbatim>\<open>listen\<close>: a control message of the parent (with
  or without a file descriptor), the \<^verbatim>\<open>close\<close> event of a connection, and the three
  signals for which \<^verbatim>\<open>postChroot\<close> installs a listener. \<open>SIGUSR2\<close> carries what
  \<^verbatim>\<open>mt.stats\<close> calls back with.

  \<^verbatim>\<open>process.once('SIGTERM', noop)\<close> and \<^verbatim>\<open>process.once('SIGINT', noop)\<close> install a
  listener that is removed when it has run once; a signal without a listener has the
  default action of the runtime, which ends the process. The parent (\<^verbatim>\<open>src/bin/pdb\<close>)
  installs its own listeners the same way and logs \<^verbatim>\<open>send another SIGTERM to force quit\<close>.
\<close>

datatype signal = SIGTERM | SIGINT

datatype input =
    Message msg "conn option"
  | Closed conn
  | Signal signal
  | SIGUSR2 "error + string"

datatype status = Up | KilledBy signal | Uncaught error

type_synonym proc = "status \<times> db_exec"

definition closed :: "conn \<Rightarrow> db_exec \<Rightarrow> db_exec" where
  "closed c s =
     (if map_of (connections s) (connId c) = Some c
      then emit [LogInfo ''close''] (s\<lparr>connections := AList.delete (connId c) (connections s)\<rparr>)
      else s)"

definition sigusr2 :: "error + string \<Rightarrow> db_exec \<Rightarrow> db_exec" where
  "sigusr2 r s =
     (case r of
        Inl err \<Rightarrow> emit [LogErr err] s
      | Inr mtStats \<Rightarrow> emit [StatsDump mtStats (map fst (connections s))] s)"

definition on_signal :: "signal \<Rightarrow> db_exec \<Rightarrow> proc" where
  "on_signal sg s =
     (case sg of
        SIGTERM \<Rightarrow> (if sigtermOnce s then (Up, s\<lparr>sigtermOnce := False\<rparr>) else (KilledBy SIGTERM, s))
      | SIGINT \<Rightarrow> (if sigintOnce s then (Up, s\<lparr>sigintOnce := False\<rparr>) else (KilledBy SIGINT, s)))"

definition step :: "string list \<Rightarrow> proc \<Rightarrow> input \<Rightarrow> proc" where
  "step pers p i =
     (case fst p of
        Up \<Rightarrow>
          (case i of
             Message m c \<Rightarrow>
               (if listening (snd p)
                then (case handleIncomingMsg pers m c (snd p) of
                        Inl e \<Rightarrow> (Uncaught e, snd p)
                      | Inr s' \<Rightarrow> (Up, s'))
                else p)
           | Closed c \<Rightarrow> (Up, closed c (snd p))
           | Signal sg \<Rightarrow> on_signal sg (snd p)
           | SIGUSR2 r \<Rightarrow> (Up, sigusr2 r (snd p)))
      | _ \<Rightarrow> p)"

definition run :: "string list \<Rightarrow> input list \<Rightarrow> proc \<Rightarrow> proc" where
  "run pers ins p = foldl (step pers) p ins"

fun isLogErr :: "event \<Rightarrow> bool" where
  "isLogErr (LogErr e) = True"
| "isLogErr _ = False"

fun isCreateLocalWriteStream :: "event \<Rightarrow> bool" where
  "isCreateLocalWriteStream (CreateLocalWriteStream w) = True"
| "isCreateLocalWriteStream _ = False"

fun isStartMerge :: "event \<Rightarrow> bool" where
  "isStartMerge (StartMerge k) = True"
| "isStartMerge _ = False"

text \<open>
  A message is rejected when the handler returns with nothing changed but the log, at
  least one error logged, and neither a local write stream created nor a merge started.
\<close>

definition rejected :: "db_exec \<Rightarrow> error + db_exec \<Rightarrow> bool" where
  "rejected s r =
     (case r of
        Inl e \<Rightarrow> False
      | Inr s' \<Rightarrow>
          s' = s\<lparr>events := events s'\<rparr> \<and>
          take (length (events s)) (events s') = events s \<and>
          list_ex isLogErr (drop (length (events s)) (events s')) \<and>
          \<not> list_ex isCreateLocalWriteStream (drop (length (events s)) (events s')) \<and>
          \<not> list_ex isStartMerge (drop (length (events s)) (events s')))"

definition localWriters :: "db_exec \<Rightarrow> nat" where
  "localWriters s = length (filter isCreateLocalWriteStream (events s))"


text \<open>
  The invariant of the two flags: they are never both set, and a local write stream has
  been created at most once, and only when one of them is set.
\<close>

definition writer_inv :: "db_exec \<Rightarrow> bool" where
  "writer_inv s =
     (\<not> (autoMergeReceived s \<and> localDataChannelReceived s) \<and>
      localWriters s \<le> (if autoMergeReceived s \<or> localDataChannelReceived s then 1 else 0))"

definition autoMergeMsg :: msg where
  "autoMergeMsg = \<lparr>mtype = ''autoMerge'', perspective = [], receiveBeforeSend = False\<rparr>"

definition localDataChannelMsg :: msg where
  "localDataChannelMsg = \<lparr>mtype = ''localDataChannel'', perspective = [], receiveBeforeSend = False\<rparr>"

definition killMsg :: msg where
  "killMsg = \<lparr>mtype = ''kill'', perspective = [], receiveBeforeSend = False\<rparr>"

section \<open>Items and the local tree, as the head lookup channel sees them\<close>

text \<open>
  An item with its header fields \<^verbatim>\<open>h.id\<close>, \<^verbatim>\<open>h.v\<close>, \<^verbatim>\<open>h.pa\<close>, \<^verbatim>\<open>h.i\<close>, \<^verbatim>\<open>h.d\<close>,
  \<^verbatim>\<open>h.c\<close> and its body \<^verbatim>\<open>b\<close> (absent in a tombstone). Ids and versions are strings;
  a document is a list of fields whose values are strings or documents.
\<close>

datatype val = S string | D "(string \<times> val) list"

type_synonym doc = "(string \<times> val) list"

datatype item =
  Item (h_id: string) (h_v: string) (h_pa: "string list") (h_i: nat) (h_d: bool) (h_c: bool)
       (body: "doc option")

text \<open>The options object that is passed to \<^verbatim>\<open>ltree.getHeads\<close>.\<close>

record heads_opts =
  o_id :: "string option"
  o_prefix :: "string option"
  o_skipConflicts :: bool
  o_skipDeletes :: bool
  o_limit :: "nat option"

text \<open>
  The local tree is not part of \<^verbatim>\<open>src/\<close>; the channel handler uses four of its methods.
  An \<open>ltree\<close> gives what each of them answers at one moment: \<open>getHeads\<close> the heads it
  yields to the visitor, in order, and the store error that ends the iteration early, if
  any; \<open>inBufferById\<close> whether a write for the id is still in the write buffer;
  \<open>lastVersion\<close> and \<open>getByVersion\<close> an error or the (possibly missing) result.
\<close>

record ltree =
  getHeads :: "heads_opts \<Rightarrow> item list \<times> error option"
  inBufferById :: "string \<Rightarrow> bool"
  lastVersion :: "error + string option"
  getByVersion :: "string \<Rightarrow> error + item option"

text \<open>
  Modelled from the spec: the iteration of \<^verbatim>\<open>Tree.getHeads(opts, visit, done)\<close>, which
  is missing from \<^verbatim>\<open>src/\<close>. Section 4.1: it "yields heads one at a time to a visitor
  that may accept or abort". The visitor gets a head and the state of the variables it
  closes over; it continues (\<^verbatim>\<open>next()\<close>) with the new state or aborts (\<^verbatim>\<open>next(err)\<close>).
  \<^verbatim>\<open>done\<close> gets the error of the visitor, or else the error of the store, or nothing.
\<close>

fun iterateHeads ::
  "item list \<Rightarrow> error option \<Rightarrow> (item \<Rightarrow> 'a \<Rightarrow> error + 'a) \<Rightarrow> 'a \<Rightarrow> error + 'a" where
  "iterateHeads [] e visit acc = (case e of None \<Rightarrow> Inr acc | Some err \<Rightarrow> Inl err)"
| "iterateHeads (x # xs) e visit acc =
     (case visit x acc of Inl err \<Rightarrow> Inl err | Inr acc' \<Rightarrow> iterateHeads xs e visit acc')"

section \<open>The head lookup channel\<close>

definition HeadAmbiguous :: error where
  "HeadAmbiguous = Error ''already found another non-conflicting and non-deleted head''"

definition byId :: "string \<Rightarrow> heads_opts" where
  "byId x = \<lparr>o_id = Some x, o_prefix = None, o_skipConflicts = True, o_skipDeletes = True,
             o_limit = None\<rparr>"

definition byPrefix :: "string \<Rightarrow> heads_opts" where
  "byPrefix p = \<lparr>o_id = None, o_prefix = Some p, o_skipConflicts = False,
                 o_skipDeletes = False, o_limit = Some 1\<rparr>"

text \<open>The visitor of \<^verbatim>\<open>lookupById\<close>; its state is the variable \<^verbatim>\<open>head\<close>.\<close>

definition visitHead :: "item \<Rightarrow> item option \<Rightarrow> error + item option" where
  "visitHead x head = (case head of Some y \<Rightarrow> Inl HeadAmbiguous | None \<Rightarrow> Inr (Some x))"

text \<open>One pass of \<^verbatim>\<open>getHeads\<close> in \<^verbatim>\<open>lookupById\<close>, up to the call of its final callback.\<close>

definition scanHeads :: "ltree \<Rightarrow> string \<Rightarrow> error + item option" where
  "scanHeads t x = (case getHeads t (byId x) of (hs, e) \<Rightarrow> iterateHeads hs e visitHead None)"

text \<open>
  \<^verbatim>\<open>lookupById(id, cb)\<close>. The tree changes while the lookup waits, so the lookup reads
  a sequence of trees, \<open>w n\<close> being the tree that its \<open>n\<close>-th pass finds. The result is
  what \<^verbatim>\<open>cb\<close> is called with, together with the time spent in \<^verbatim>\<open>setTimeout\<close>, in ms;
  \<open>None\<close> is a lookup that never calls back.
\<close>

partial_function (option) lookupById ::
  "(nat \<Rightarrow> ltree) \<Rightarrow> nat \<Rightarrow> string \<Rightarrow> nat \<Rightarrow> ((error + item option) \<times> nat) option" where
  "lookupById w n x ms =
     (case scanHeads (w n) x of
        Inl err \<Rightarrow> Some (Inl err, ms)
      | Inr (Some head) \<Rightarrow> Some (Inr (Some head), ms)
      | Inr None \<Rightarrow>
          (if inBufferById (w n) x then lookupById w (Suc n) x (ms + 100)
           else Some (Inr None, ms)))"

text \<open>What goes out on the connection: a BSON document, or the connection is destroyed.\<close>

datatype bson = BsonItem item | BsonEmpty

datatype answer = ConnWrite bson | ConnError error

text \<open>The callback that the handler passes to \<^verbatim>\<open>lookupById\<close>.\<close>

definition lookupByIdCb :: "error + item option \<Rightarrow> answer" where
  "lookupByIdCb r =
     (case r of
        Inl err \<Rightarrow> ConnError err
      | Inr (Some head) \<Rightarrow> ConnWrite (BsonItem head)
      | Inr None \<Rightarrow> ConnWrite BsonEmpty)"

definition serveById :: "(nat \<Rightarrow> ltree) \<Rightarrow> string \<Rightarrow> answer option" where
  "serveById w x = map_option (\<lambda>r. lookupByIdCb (fst r)) (lookupById w 0 x 0)"

text \<open>The branch of \<^verbatim>\<open>req.prefixExists\<close>: the visitor keeps the last head it is given.\<close>

definition servePrefix :: "ltree \<Rightarrow> string \<Rightarrow> answer" where
  "servePrefix t p =
     (case getHeads t (byPrefix p) of
        (hs, e) \<Rightarrow>
          (case iterateHeads hs e (\<lambda>x head. Inr (Some x)) None of
             Inl err \<Rightarrow> ConnError err
           | Inr (Some head) \<Rightarrow> ConnWrite (BsonItem head)
           | Inr None \<Rightarrow> ConnWrite BsonEmpty))"

text \<open>
  JavaScript truthiness of an optional string field: a missing field and the empty
  string are both falsy (\<open>None\<close>); any other string is truthy and is the value.
\<close>

definition truthy :: "string option \<Rightarrow> string option" where
  "truthy x = (case x of None \<Rightarrow> None | Some s \<Rightarrow> if s = [] then None else Some s)"

text \<open>The last branch: the last version of the tree, fetched back by version.\<close>

definition serveLast :: "ltree \<Rightarrow> answer" where
  "serveLast t =
     (case lastVersion t of
        Inl err \<Rightarrow> ConnError err
      | Inr v \<Rightarrow>
          (case truthy v of
             None \<Rightarrow> ConnWrite BsonEmpty
           | Some ver \<Rightarrow>
               (case getByVersion t ver of
                  Inl err \<Rightarrow> ConnError err
                | Inr None \<Rightarrow> ConnError (Error ''head not found'')
                | Inr (Some x) \<Rightarrow> ConnWrite (BsonItem x))))"

text \<open>A head lookup request, \<^verbatim>\<open>{id, prefixExists}\<close> with both fields optional.\<close>

record request =
  req_id :: "string option"
  req_prefixExists :: "string option"

text \<open>
  The body of the \<^verbatim>\<open>readable\<close> listener for one request: \<^verbatim>\<open>if (req.id) ... else if
  (req.prefixExists) ... else ...\<close>. \<open>None\<close> is a request that is never answered.
\<close>

definition headLookup :: "(nat \<Rightarrow> ltree) \<Rightarrow> request \<Rightarrow> answer option" where
  "headLookup w req =
     (case truthy (req_id req) of
        Some x \<Rightarrow> serveById w x
      | None \<Rightarrow>
          (case truthy (req_prefixExists req) of
             Some p \<Rightarrow> Some (servePrefix (w 0) p)
           | None \<Rightarrow> Some (serveLast (w 0))))"

text \<open>
  The \<^verbatim>\<open>readable\<close> listener, given what its one call of \<^verbatim>\<open>ls.read()\<close> returns:
  on \<^verbatim>\<open>null\<close> nothing happens, a request is looked up.
\<close>

definition onReadable :: "(nat \<Rightarrow> ltree) \<Rightarrow> request option \<Rightarrow> answer list option" where
  "onReadable w r =
     (case r of
        None \<Rightarrow> Some []
      | Some req \<Rightarrow> map_option (\<lambda>a. [a]) (headLookup w req))"

text \<open>
  The requests are read through \<^verbatim>\<open>new LDJSONStream({ maxDocLength: 512 })\<close>; the
  stream itself is a library that is not part of \<^verbatim>\<open>src/\<close>.
\<close>

definition maxDocLength :: nat where
  "maxDocLength = 512"

text \<open>
  Modelled from the spec: the error that the parse stream emits for a document that is
  longer than the limit.
\<close>

definition DocTooLong :: error where
  "DocTooLong = Error ''document exceeds maxDocLength''"

text \<open>
  Modelled from the spec: the length check of the parse stream. Section 6: "LDJSON
  request \<le> 512 bytes in". A line of more than \<open>maxDocLength\<close> bytes makes the stream
  emit an error; a shorter line is parsed, by \<open>parse\<close>, into a request or a parse
  error.
\<close>

definition ldjson :: "(string \<Rightarrow> error + request) \<Rightarrow> string \<Rightarrow> error + request" where
  "ldjson parse line = (if maxDocLength < length line then Inl DocTooLong else parse line)"

text \<open>
  Modelled from the spec: a line that arrives on the connection and goes through the
  parse stream, with \<open>q\<close> the documents that the stream has parsed and the listener has
  not read yet. A line that the stream refuses is not queued; the listener of the stream's
  errors is \<^verbatim>\<open>connErrorHandler\<close>, which destroys the connection. A line that parses is
  queued behind the documents that wait; nothing is looked up or written at that moment.
\<close>

definition onData ::
  "(string \<Rightarrow> error + request) \<Rightarrow> string \<Rightarrow> request list \<Rightarrow> answer list \<times> request list" where
  "onData parse line q =
     (case ldjson parse line of
        Inl err \<Rightarrow> ([ConnError err], q)
      | Inr req \<Rightarrow> ([], q @ [req]))"

text \<open>
  \<^verbatim>\<open>ls.read()\<close> on an object stream: the first document that waits, or \<^verbatim>\<open>null\<close>, and
  the documents that stay in the stream.
\<close>

definition ls_read :: "request list \<Rightarrow> request option \<times> request list" where
  "ls_read q = (case q of [] \<Rightarrow> (None, []) | req # rest \<Rightarrow> (Some req, rest))"

text \<open>
  One \<^verbatim>\<open>readable\<close> event of the parse stream: the listener calls \<^verbatim>\<open>ls.read()\<close> once and
  handles what it gets. When the stream emits the event is up to the stream; a document
  that waits behind the one that is read stays in the stream until a later event.
\<close>

definition readable ::
  "(nat \<Rightarrow> ltree) \<Rightarrow> request list \<Rightarrow> answer list option \<times> request list" where
  "readable w q = (onReadable w (fst (ls_read q)), snd (ls_read q))"

section \<open>The local tree of the spec\<close>

text \<open>
  Modelled from the spec: the contents of a tree, which is missing from \<^verbatim>\<open>src/\<close>.
  \<open>t_items\<close> are the items on disk in insertion order (section 3: "append-only"),
  \<open>t_buffer\<close> the items of the in-memory write buffer (section 4.1).
\<close>

record tree =
  t_items :: "item list"
  t_buffer :: "item list"

text \<open>
  Modelled from the spec: section 3, a head of an id is "any version of X that is not
  referenced as a parent by any other version of X in that tree".
\<close>

definition is_head :: "item list \<Rightarrow> item \<Rightarrow> bool" where
  "is_head xs x = (\<not> list_ex (\<lambda>y. h_id y = h_id x \<and> h_v x \<in> set (h_pa y)) xs)"

text \<open>
  Modelled from the spec: the options \<^verbatim>\<open>id\<close>, \<^verbatim>\<open>prefix\<close>, \<^verbatim>\<open>skipConflicts\<close> and
  \<^verbatim>\<open>skipDeletes\<close> of \<^verbatim>\<open>getHeads\<close> (section 4.1), as a filter on items.
\<close>

definition selected :: "heads_opts \<Rightarrow> item \<Rightarrow> bool" where
  "selected opts x =
     ((case o_id opts of None \<Rightarrow> True | Some k \<Rightarrow> h_id x = k) \<and>
      (case o_prefix opts of None \<Rightarrow> True | Some p \<Rightarrow> take (length p) (h_id x) = p) \<and>
      \<not> (o_skipConflicts opts \<and> h_c x) \<and>
      \<not> (o_skipDeletes opts \<and> h_d x))"

text \<open>
  Modelled from the spec: the heads that \<^verbatim>\<open>getHeads\<close> yields on a tree, section 4.1:
  the heads that the options select, at most \<^verbatim>\<open>limit\<close> of them.
\<close>

definition heads :: "tree \<Rightarrow> heads_opts \<Rightarrow> item list" where
  "heads t opts =
     (case o_limit opts of
        None \<Rightarrow> filter (\<lambda>x. is_head (t_items t) x \<and> selected opts x) (t_items t)
      | Some n \<Rightarrow> take n (filter (\<lambda>x. is_head (t_items t) x \<and> selected opts x) (t_items t)))"

text \<open>
  Modelled from the spec: section 4.1, \<^verbatim>\<open>lastVersion\<close> "returns the version with the
  largest \<open>i\<close>, or null"; \<open>lastItem\<close> is the item of that version.
\<close>

fun lastItem :: "item list \<Rightarrow> item option" where
  "lastItem [] = None"
| "lastItem (x # xs) =
     (case lastItem xs of
        None \<Rightarrow> Some x
      | Some y \<Rightarrow> if h_i x < h_i y then Some y else Some x)"

text \<open>
  Modelled from the spec: the answers of the four methods on a tree whose store does not
  fail. Section 4.1: \<^verbatim>\<open>getByVersion\<close> "returns the item or NotFound", \<^verbatim>\<open>inBuffer\<close>
  "returns true if a write for \<open>id\<close> is in flight but not yet flushed".
\<close>

definition tree_api :: "tree \<Rightarrow> ltree" where
  "tree_api t =
     \<lparr>getHeads = (\<lambda>opts. (heads t opts, None)),
      inBufferById = (\<lambda>x. list_ex (\<lambda>y. h_id y = x) (t_buffer t)),
      lastVersion = Inr (map_option h_v (lastItem (t_items t))),
      getByVersion = (\<lambda>v. Inr (find (\<lambda>x. h_v x = v) (t_items t)))\<rparr>"

text \<open>
  Modelled from the spec: the heads of an id that are neither deleted nor a conflict, in
  the words of sections 3 and 8 ("non-deleted, non-conflict head of \<open>id\<close>").
\<close>

definition liveHeads :: "tree \<Rightarrow> string \<Rightarrow> item list" where
  "liveHeads t x =
     filter (\<lambda>y. h_id y = x \<and> is_head (t_items t) y \<and> \<not> h_c y \<and> \<not> h_d y) (t_items t)"

text \<open>
  A pass of \<^verbatim>\<open>lookupById\<close> is pending when it finds no head and no error and the id is
  still in the write buffer: this is when the lookup sets its timer.
\<close>

definition pending :: "ltree \<Rightarrow> string \<Rightarrow> bool" where
  "pending t x = (scanHeads t x = Inr None \<and> inBufferById t x)"

text \<open>
  Example trees. \<open>stuck\<close>: the write for the id \<^verbatim>\<open>y\<close> stays in the buffer and never
  reaches the disk. \<open>flushing\<close>: the same write is in the buffer at the first pass and
  on disk from the second pass on (scenario 6 of the spec). \<open>flushed\<close>: the tree with that
  one item on disk. \<open>deleting\<close>: that item on disk and its tombstone \<open>tomb_y\<close> still in
  the buffer; \<open>deleted\<close>: the same tree once the tombstone is on disk. \<open>two_empty\<close>:
  two roots whose id is the empty string. \<open>two_heads\<close>: two roots of
  the id \<^verbatim>\<open>abc\<close>. \<open>broken\<close>: a tree whose store fails to give the last version, and
  would give \<open>item_y\<close> for any version.
\<close>

definition item_y :: item where
  "item_y = Item ''y'' ''Aaaa'' [] 1 False False (Some [(''some'', S ''true'')])"

definition stuck :: "nat \<Rightarrow> ltree" where
  "stuck n = tree_api \<lparr>t_items = [], t_buffer = [item_y]\<rparr>"

definition flushing :: "nat \<Rightarrow> ltree" where
  "flushing n =
     (if n = 0 then tree_api \<lparr>t_items = [], t_buffer = [item_y]\<rparr>
      else tree_api \<lparr>t_items = [item_y], t_buffer = []\<rparr>)"

definition flushed :: tree where
  "flushed = \<lparr>t_items = [item_y], t_buffer = []\<rparr>"

definition tomb_y :: item where
  "tomb_y = Item ''y'' ''Bbbb'' [''Aaaa''] 2 True False None"

definition deleting :: tree where
  "deleting = \<lparr>t_items = [item_y], t_buffer = [tomb_y]\<rparr>"

definition deleted :: tree where
  "deleted = \<lparr>t_items = [item_y, tomb_y], t_buffer = []\<rparr>"

definition two_empty :: tree where
  "two_empty =
     \<lparr>t_items = [Item [] ''Aaaa'' [] 1 False False (Some [(''some'', S ''true'')]),
                Item [] ''Bbbb'' [] 2 False False (Some [(''some'', S ''other'')])],
      t_buffer = []\<rparr>"

definition two_heads :: tree where
  "two_heads =
     \<lparr>t_items = [Item ''abc'' ''Aaaa'' [] 1 False False (Some [(''some'', S ''true'')]),
                Item ''abc'' ''Bbbb'' [] 2 False False (Some [(''some'', S ''other'')])],
      t_buffer = []\<rparr>"

definition broken :: ltree where
  "broken =
     \<lparr>getHeads = (\<lambda>opts. ([], None)), inBufferById = (\<lambda>x. False),
      lastVersion = Inl (Error ''read error''), getByVersion = (\<lambda>v. Inr (Some item_y))\<rparr>"

text \<open>
  Modelled from the spec: the invariants of a tree that the last branch of the lookup
  relies on. Section 3: "the engine rejects an insert whose \<open>v\<close> already exists in the
  same tree", \<open>i\<close> is "unique within a tree", and a version is a non-empty identifier.
\<close>

definition tree_ok :: "tree \<Rightarrow> bool" where
  "tree_ok t =
     (distinct (map h_v (t_items t)) \<and> distinct (map h_i (t_items t)) \<and>
      list_all (\<lambda>x. h_v x \<noteq> []) (t_items t))"

section \<open>The db child process: start-up\<close>

text \<open>
  The listener of the first message (\<^verbatim>\<open>process.once('message', ...)\<close>) checks the
  configuration, opens the log, loads the hooks, looks up user and group, prepares the
  chroot and the data directory, changes root, opens the store and calls
  \<^verbatim>\<open>postChroot\<close>. Each step that fails ends the process; \<open>outcome\<close> says how.

  The configuration message carries typed fields here, so of the checks at the top of
  the listener only the one for an empty \<^verbatim>\<open>name\<close> remains. What the operating system
  and the libraries answer is given by a \<open>startup_env\<close>: \<open>open_log\<close> is what
  \<^verbatim>\<open>logger(msg.log, cb)\<close> does (it throws on invalid options, calls back with an error
  and no logger when a log file cannot be opened, or calls back with a logger), the
  other fields say whether the call of the same name succeeds.
\<close>

record init_msg =
  m_name :: string
  m_chroot :: "string option"
  m_hookPaths :: "string list option"
  m_user :: "string option"
  m_group :: "string option"

datatype logger_outcome = LoggerThrows error | LoggerErr error | LoggerOk

datatype stat_result = StatError string | StatOk bool

datatype outcome = Exit nat | UncaughtException error | Listen

record startup_env =
  open_log :: logger_outcome
  requireJsFromDirsSync :: "string list \<Rightarrow> bool"
  getpwnam :: "string \<Rightarrow> nat option"
  getgrnam :: "string \<Rightarrow> nat option"
  setrlimit :: bool
  mkdirp :: "string \<Rightarrow> bool"
  stat :: "string \<Rightarrow> stat_result"
  mkdir :: "string \<Rightarrow> bool"
  chown :: "string \<Rightarrow> nat \<Rightarrow> nat \<Rightarrow> bool"
  chroot :: "string \<Rightarrow> nat \<Rightarrow> nat \<Rightarrow> bool"
  level :: "string \<Rightarrow> bool"
  postChroot :: bool

definition user_of :: "init_msg \<Rightarrow> string" where
  "user_of m = (case truthy (m_user m) of None \<Rightarrow> ''pdblevel'' | Some u \<Rightarrow> u)"

definition group_of :: "init_msg \<Rightarrow> string" where
  "group_of m = (case truthy (m_group m) of None \<Rightarrow> ''pdblevel'' | Some g \<Rightarrow> g)"

definition dbroot_of :: "init_msg \<Rightarrow> string" where
  "dbroot_of m = (case truthy (m_chroot m) of None \<Rightarrow> ''/var/pdb/'' @ m_name m | Some d \<Rightarrow> d)"

definition datapath :: "init_msg \<Rightarrow> string" where
  "datapath m = dbroot_of m @ ''/data''"

text \<open>\<^verbatim>\<open>doChroot(); openDbAndProceed();\<close>\<close>

definition chrootAndOpen :: "startup_env \<Rightarrow> init_msg \<Rightarrow> nat \<Rightarrow> nat \<Rightarrow> outcome" where
  "chrootAndOpen env m uid gid =
     (if \<not> chroot env (dbroot_of m) uid gid then Exit 8
      else if \<not> level env ''/data'' then Exit 9
      else if \<not> postChroot env then UncaughtException (Error ''postChroot'')
      else Listen)"

text \<open>The callback of \<^verbatim>\<open>mkdirp(dbroot, '755', ...)\<close>.\<close>

definition ensurePath :: "startup_env \<Rightarrow> init_msg \<Rightarrow> nat \<Rightarrow> nat \<Rightarrow> outcome" where
  "ensurePath env m uid gid =
     (if \<not> mkdirp env (dbroot_of m) then Exit 3
      else (case stat env (datapath m) of
              StatError code \<Rightarrow>
                (if code \<noteq> ''ENOENT'' then Exit 4
                 else if \<not> mkdir env (datapath m) then Exit 5
                 else if \<not> chown env (datapath m) uid gid then Exit 6
                 else chrootAndOpen env m uid gid)
            | StatOk isDirectory \<Rightarrow>
                (if \<not> isDirectory then Exit 7 else chrootAndOpen env m uid gid)))"

text \<open>The callback of \<^verbatim>\<open>logger(msg.log, ...)\<close>, once the log is open.\<close>

definition withLog :: "startup_env \<Rightarrow> init_msg \<Rightarrow> outcome" where
  "withLog env m =
     (if (case m_hookPaths m of None \<Rightarrow> False | Some dirs \<Rightarrow> \<not> requireJsFromDirsSync env dirs)
      then Exit 2
      else (case getpwnam env (user_of m) of
              None \<Rightarrow> Exit 3
            | Some uid \<Rightarrow>
                (case getgrnam env (group_of m) of
                   None \<Rightarrow> Exit 3
                 | Some gid \<Rightarrow>
                     (if \<not> setrlimit env then UncaughtException (Error ''setrlimit'')
                      else ensurePath env m uid gid))))"

text \<open>
  The listener. When \<^verbatim>\<open>logger\<close> calls back with an error it passes no logger, so
  \<^verbatim>\<open>l.err(err)\<close> throws a TypeError before \<^verbatim>\<open>throw err\<close> is reached.
\<close>

definition startup :: "startup_env \<Rightarrow> init_msg \<Rightarrow> outcome" where
  "startup env m =
     (if m_name m = [] then UncaughtException (Error ''msg.name must be a non-empty string'')
      else (case open_log env of
              LoggerThrows e \<Rightarrow> UncaughtException e
            | LoggerErr e \<Rightarrow> UncaughtException (Error ''TypeError'')
            | LoggerOk \<Rightarrow> withLog env m))"

text \<open>How far the start-up gets: the conditions under which each step is reached.\<close>

definition log_opened :: "startup_env \<Rightarrow> init_msg \<Rightarrow> bool" where
  "log_opened env m = (m_name m \<noteq> [] \<and> open_log env = LoggerOk)"

definition hooks_loaded :: "startup_env \<Rightarrow> init_msg \<Rightarrow> bool" where
  "hooks_loaded env m =
     (log_opened env m \<and>
      (case m_hookPaths m of None \<Rightarrow> True | Some dirs \<Rightarrow> requireJsFromDirsSync env dirs))"

definition ids_found :: "startup_env \<Rightarrow> init_msg \<Rightarrow> bool" where
  "ids_found env m =
     (hooks_loaded env m \<and> getpwnam env (user_of m) \<noteq> None \<and> getgrnam env (group_of m) \<noteq> None)"

definition chroot_dir_made :: "startup_env \<Rightarrow> init_msg \<Rightarrow> bool" where
  "chroot_dir_made env m = (ids_found env m \<and> setrlimit env \<and> mkdirp env (dbroot_of m))"

definition uid_of :: "startup_env \<Rightarrow> init_msg \<Rightarrow> nat" where
  "uid_of env m = (case getpwnam env (user_of m) of None \<Rightarrow> 0 | Some uid \<Rightarrow> uid)"

definition gid_of :: "startup_env \<Rightarrow> init_msg \<Rightarrow> nat" where
  "gid_of env m = (case getgrnam env (group_of m) of None \<Rightarrow> 0 | Some gid \<Rightarrow> gid)"

definition path_ready :: "startup_env \<Rightarrow> init_msg \<Rightarrow> bool" where
  "path_ready env m =
     (chroot_dir_made env m \<and>
      (stat env (datapath m) = StatOk True \<or>
       stat env (datapath m) = StatError ''ENOENT'' \<and> mkdir env (datapath m) \<and>
       chown env (datapath m) (uid_of env m) (gid_of env m)))"

text \<open>Example configurations: a start-up in which every step succeeds, and its message.\<close>

definition good_env :: startup_env where
  "good_env =
     \<lparr>open_log = LoggerOk, requireJsFromDirsSync = (\<lambda>dirs. True),
      getpwnam = (\<lambda>u. Some 1001), getgrnam = (\<lambda>g. Some 1001), setrlimit = True,
      mkdirp = (\<lambda>d. True), stat = (\<lambda>p. StatOk True), mkdir = (\<lambda>p. True),
      chown = (\<lambda>p uid gid. True), chroot = (\<lambda>d uid gid. True), level = (\<lambda>p. True),
      postChroot = True\<rparr>"

definition mydb :: init_msg where
  "mydb = \<lparr>m_name = ''mydb'', m_chroot = Some ''/srv/persdb/mydb'',
           m_hookPaths = Some [''/srv/persdb/hooks''], m_user = Some ''pdblevel'',
           m_group = Some ''pdblevel''\<rparr>"

section \<open>The oplog transform of the MongoDB adapter\<close>

text \<open>
  An oplog record: timestamp \<^verbatim>\<open>ts\<close>, namespace \<^verbatim>\<open>ns\<close>, operation \<^verbatim>\<open>op\<close> (\<^verbatim>\<open>i\<close>,
  \<^verbatim>\<open>u\<close> or \<^verbatim>\<open>d\<close>), the document or modifier \<^verbatim>\<open>o\<close> and, for updates, the selector
  \<^verbatim>\<open>o2\<close>. A new version as the adapter emits it: \<^verbatim>\<open>h.id\<close>, \<^verbatim>\<open>h.d\<close>, \<^verbatim>\<open>m._op\<close> and
  the body \<^verbatim>\<open>b\<close>.
\<close>

type_synonym timestamp = "nat \<times> nat"

record oplog_item =
  ol_ts :: timestamp
  ol_ns :: string
  ol_op :: string
  ol_o :: doc
  ol_o2 :: "doc option"

record new_version =
  nv_id :: string
  nv_d :: bool
  nv_op :: timestamp
  nv_b :: "doc option"

text \<open>
  The state that the transform works on: the oplog records of the caller, by reference,
  the lookup requests written to the request channel so far, and the new versions pushed
  to the readable side.
\<close>

record adapter =
  records :: "nat \<Rightarrow> oplog_item option"
  reqChan :: "request list"
  pushed :: "new_version list"

text \<open>The \<^verbatim>\<open>_id\<close> of a document, when it has one that is a string.\<close>

definition doc_id :: "doc \<Rightarrow> string option" where
  "doc_id d = (case map_of d ''_id'' of Some (S x) \<Rightarrow> Some x | _ \<Rightarrow> None)"

text \<open>
  Modelled from the spec: section 7, \<open>PreviousVersionNotFound\<close> "(oplog modifier with no
  base)"; the message is the one the tests expect.
\<close>

definition PreviousVersionNotFound :: error where
  "PreviousVersionNotFound = Error ''previous version of doc not found''"

text \<open>
  Modelled from the spec: \<^verbatim>\<open>OplogTransform._oplogUpdateContainsModifier\<close>, which is
  missing from \<^verbatim>\<open>src/\<close> (its tests are in \<^verbatim>\<open>src/unnamed/part_003\<close>): an update is a
  modifier when the first key of \<^verbatim>\<open>o\<close> starts with a dollar sign.
\<close>

definition oplogUpdateContainsModifier :: "oplog_item \<Rightarrow> bool" where
  "oplogUpdateContainsModifier i =
     (case ol_o i of
        [] \<Rightarrow> False
      | kv # rest \<Rightarrow> (case fst kv of [] \<Rightarrow> False | ch # cs \<Rightarrow> ch = CHR 0x24))"

text \<open>
  Modelled from the spec: \<^verbatim>\<open>_applyOplogFullDoc\<close>, missing from \<^verbatim>\<open>src/\<close>. Section 4.5:
  the adapter "emits canonical items" for "insert" and "update-full-doc"; the tests give
  the item: the id is \<^verbatim>\<open>o._id\<close>, the timestamp goes to \<^verbatim>\<open>m._op\<close>, the body is \<^verbatim>\<open>o\<close>.
\<close>

definition applyOplogFullDoc :: "oplog_item \<Rightarrow> error + new_version" where
  "applyOplogFullDoc i =
     (if ol_op i \<noteq> ''u'' \<and> ol_op i \<noteq> ''i'' then Inl (Error ''oplogItem.op must be u or i'')
      else (case doc_id (ol_o i) of
              None \<Rightarrow> Inl (Error ''missing oplogItem.o._id'')
            | Some x \<Rightarrow> Inr \<lparr>nv_id = x, nv_d = False, nv_op = ol_ts i, nv_b = Some (ol_o i)\<rparr>))"

text \<open>
  Modelled from the spec: \<^verbatim>\<open>_applyOplogDeleteItem\<close>, missing from \<^verbatim>\<open>src/\<close>. Section
  4.5 and the glossary: a "delete" gives a tombstone, "an item marked deleted; carries no
  body"; the id is \<^verbatim>\<open>o._id\<close>.
\<close>

definition applyOplogDeleteItem :: "oplog_item \<Rightarrow> error + new_version" where
  "applyOplogDeleteItem i =
     (if ol_op i \<noteq> ''d'' then Inl (Error ''oplogItem.op must be d'')
      else (case doc_id (ol_o i) of
              None \<Rightarrow> Inl (Error ''missing oplogItem.o._id'')
            | Some x \<Rightarrow> Inr \<lparr>nv_id = x, nv_d = True, nv_op = ol_ts i, nv_b = None\<rparr>))"

text \<open>
  Modelled from the spec: \<^verbatim>\<open>_createNewVersionByUpdateDoc(dagItem, oplogItem, cb)\<close>,
  missing from \<^verbatim>\<open>src/\<close>. It applies the modifier \<^verbatim>\<open>o\<close> to the body of the previous
  version; \<open>upd\<close> is the update semantics of MongoDB, which the model does not fix.
\<close>

definition createNewVersionByUpdateDoc ::
  "(doc \<Rightarrow> doc \<Rightarrow> doc) \<Rightarrow> item \<Rightarrow> oplog_item \<Rightarrow> error + new_version" where
  "createNewVersionByUpdateDoc upd dagItem i =
     (if ol_op i \<noteq> ''u'' then Inl (Error ''oplogItem op must be u'')
      else (case ol_o2 i of
              None \<Rightarrow> Inl (Error ''TypeError'')
            | Some sel \<Rightarrow>
                (case doc_id sel of
                   None \<Rightarrow> Inl (Error ''missing oplogItem.o2._id'')
                 | Some x \<Rightarrow>
                     (if map_of (ol_o i) ''_id'' \<noteq> None then Inl (Error ''oplogItem contains o._id'')
                      else Inr \<lparr>nv_id = x, nv_d = False, nv_op = ol_ts i,
                                nv_b = Some (upd (case body dagItem of None \<Rightarrow> [] | Some b \<Rightarrow> b)
                                                 (ol_o i))\<rparr>))))"

text \<open>
  Modelled from the spec: \<^verbatim>\<open>_applyOplogUpdateModifier(oplogItem, cb)\<close>, missing from
  \<^verbatim>\<open>src/\<close>. Section 4.5: "it writes a single line-delimited JSON lookup request
  \<^verbatim>\<open>{id}\<close> onto a request channel and awaits a BSON item on the response channel";
  section 7: \<open>PreviousVersionNotFound\<close> is an "oplog modifier with no base". \<open>lookup\<close>
  is the other end of the two channels: the BSON document that comes back for a request,
  or \<open>None\<close> when none comes back; the transform then waits, which is the result
  \<open>None\<close>.
\<close>

definition applyOplogUpdateModifier ::
  "(doc \<Rightarrow> doc \<Rightarrow> doc) \<Rightarrow> (request \<Rightarrow> bson option) \<Rightarrow> oplog_item \<Rightarrow> adapter \<Rightarrow>
     ((error + new_version) \<times> adapter) option" where
  "applyOplogUpdateModifier upd lookup i a =
     (case ol_o2 i of
        None \<Rightarrow> Some (Inl (Error ''TypeError''), a)
      | Some sel \<Rightarrow>
          (case lookup \<lparr>req_id = doc_id sel, req_prefixExists = None\<rparr> of
             None \<Rightarrow> None
           | Some BsonEmpty \<Rightarrow>
               Some (Inl PreviousVersionNotFound,
                     a\<lparr>reqChan := reqChan a @ [\<lparr>req_id = doc_id sel, req_prefixExists = None\<rparr>]\<rparr>)
           | Some (BsonItem head) \<Rightarrow>
               Some (createNewVersionByUpdateDoc upd head i,
                     a\<lparr>reqChan := reqChan a @ [\<lparr>req_id = doc_id sel, req_prefixExists = None\<rparr>]\<rparr>)))"

text \<open>
  Modelled from the spec: the end of \<^verbatim>\<open>_transform\<close>. A new version is pushed to the
  readable side ("emits canonical items"); an error is passed to the callback.
\<close>

definition push :: "(error + new_version) \<times> adapter \<Rightarrow> (error + new_version) \<times> adapter" where
  "push ra =
     (case fst ra of
        Inl e \<Rightarrow> ra
      | Inr v \<Rightarrow> (Inr v, (snd ra)\<lparr>pushed := pushed (snd ra) @ [v]\<rparr>))"

text \<open>
  Modelled from the spec: \<^verbatim>\<open>OplogTransform._transform\<close>, missing from \<^verbatim>\<open>src/\<close>, for
  the oplog record that the reference \<open>r\<close> points to. Section 4.5: the adapter "observes
  a foreign change log (insert, update-full-doc, update-modifier, delete) and emits
  canonical items" and "must be side-effect-free on its input records".
\<close>

definition transform ::
  "(doc \<Rightarrow> doc \<Rightarrow> doc) \<Rightarrow> (request \<Rightarrow> bson option) \<Rightarrow> nat \<Rightarrow> adapter \<Rightarrow>
     ((error + new_version) \<times> adapter) option" where
  "transform upd lookup r a =
     (case records a r of
        None \<Rightarrow> Some (Inl (Error ''invalid oplogItem''), a)
      | Some i \<Rightarrow>
          (if ol_op i = ''i'' then Some (push (applyOplogFullDoc i, a))
           else if ol_op i = ''u'' then
             (if oplogUpdateContainsModifier i
              then map_option push (applyOplogUpdateModifier upd lookup i a)
              else Some (push (applyOplogFullDoc i, a)))
           else if ol_op i = ''d'' then Some (push (applyOplogDeleteItem i, a))
           else Some (Inl (Error ''invalid oplogItem''), a)))"

text \<open>
  The records and the answers of the tests in \<^verbatim>\<open>src/unnamed/part_003\<close>: an insert, an
  update by full document, an update by modifier and a delete, the previous version of
  \<^verbatim>\<open>foo\<close>, and an update semantics that handles \<^verbatim>\<open>$set\<close> of one level.
\<close>

definition oplogInsert :: oplog_item where
  "oplogInsert = \<lparr>ol_ts = (9, 1), ol_ns = ''test_oplog_transform._transform'', ol_op = ''i'',
                  ol_o = [(''_id'', S ''bar''), (''baz'', S ''foobar'')], ol_o2 = None\<rparr>"

definition oplogFullDoc :: oplog_item where
  "oplogFullDoc = \<lparr>ol_ts = (1414516132, 1), ol_ns = ''test_oplog_transform._transform'',
                   ol_op = ''u'',
                   ol_o = [(''_id'', S ''foo''), (''_v'', S ''A''), (''qux'', S ''quux'')],
                   ol_o2 = Some [(''_id'', S ''foo'')]\<rparr>"

definition oplogModifier :: oplog_item where
  "oplogModifier = \<lparr>ol_ts = (1414516132, 1), ol_ns = ''test_oplog_transform._transform'',
                    ol_op = ''u'', ol_o = [(CHR 0x24 # ''set'', D [(''bar'', S ''baz'')])],
                    ol_o2 = Some [(''_id'', S ''foo''), (''_v'', S ''A'')]\<rparr>"

definition oplogDelete :: oplog_item where
  "oplogDelete = \<lparr>ol_ts = (9, 1), ol_ns = ''test_oplog_transform._transform'', ol_op = ''d'',
                  ol_o = [(''_id'', S ''foo'')], ol_o2 = None\<rparr>"

definition dagItem :: item where
  "dagItem = Item ''foo'' ''A'' [] 1 False False (Some [(''_id'', S ''foo''), (''qux'', S ''quux'')])"

fun setFields :: "doc \<Rightarrow> doc \<Rightarrow> doc" where
  "setFields b [] = b"
| "setFields b (kv # kvs) = setFields (AList.update (fst kv) (snd kv) b) kvs"

definition mongoSet :: "doc \<Rightarrow> doc \<Rightarrow> doc" where
  "mongoSet b m = (case map_of m (CHR 0x24 # ''set'') of Some (D kvs) \<Rightarrow> setFields b kvs | _ \<Rightarrow> b)"

definition testRecords :: "nat \<Rightarrow> oplog_item option" where
  "testRecords r =
     (if r = 0 then Some oplogInsert else if r = 1 then Some oplogFullDoc
      else if r = 2 then Some oplogModifier else if r = 3 then Some oplogDelete else None)"

definition testAdapter :: adapter where
  "testAdapter = \<lparr>records = testRecords, reqChan = [], pushed = []\<rparr>"

section \<open>Properties of the control messages\<close>

lemma localWriters_emit [simp]:
  "localWriters (emit es s) = localWriters s + length (filter isCreateLocalWriteStream es)"
  by (simp add: localWriters_def emit_def)

lemma localWriters_update [simp]:
  "localWriters (s\<lparr>headLookupReceived := a\<rparr>) = localWriters s"
  "localWriters (s\<lparr>localDataChannelReceived := a\<rparr>) = localWriters s"
  "localWriters (s\<lparr>autoMergeReceived := a\<rparr>) = localWriters s"
  "localWriters (s\<lparr>connections := cs\<rparr>) = localWriters s"
  "localWriters (s\<lparr>shuttingDown := a\<rparr>) = localWriters s"
  "localWriters (s\<lparr>listening := a\<rparr>) = localWriters s"
  "localWriters (s\<lparr>sigtermOnce := a\<rparr>) = localWriters s"
  "localWriters (s\<lparr>sigintOnce := a\<rparr>) = localWriters s"
  by (simp_all add: localWriters_def)

lemma fields_emit [simp]:
  "autoMergeReceived (emit es s) = autoMergeReceived s"
  "localDataChannelReceived (emit es s) = localDataChannelReceived s"
  "headLookupReceived (emit es s) = headLookupReceived s"
  "connections (emit es s) = connections s"
  "shuttingDown (emit es s) = shuttingDown s"
  "listening (emit es s) = listening s"
  "sigtermOnce (emit es s) = sigtermOnce s"
  "sigintOnce (emit es s) = sigintOnce s"
  "events (emit es s) = events s @ es"
  by (simp_all add: emit_def)

lemma no_writer_in_ConnEnd [simp]:
  "filter isCreateLocalWriteStream (map (\<lambda>p. ConnEnd (snd p)) cs) = []"
  by (induction cs) auto

lemma handleIncomingMsg_writer_inv:
  "writer_inv s \<Longrightarrow> handleIncomingMsg pers m c s = Inr s' \<Longrightarrow> writer_inv s'"
  by (auto simp: writer_inv_def handleIncomingMsg_def connErrorHandler_def
      headLookupConnHandler_def localDataConnHandler_def remoteDataConnHandler_def shutdown_def
      register_def split: if_splits option.splits)

lemma step_writer_inv:
  assumes "writer_inv (snd p)"
  shows "writer_inv (snd (step pers p i))"
proof (cases "fst p")
  case Up
  show ?thesis
  proof (cases i)
    case (Message m c)
    then show ?thesis using assms Up
      by (auto simp: step_def split: sum.splits dest: handleIncomingMsg_writer_inv)
  next
    case (Closed c)
    then show ?thesis using assms Up
      by (auto simp: step_def closed_def writer_inv_def split: if_splits)
  next
    case (Signal sg)
    then show ?thesis using assms Up
      by (cases sg) (auto simp: step_def on_signal_def writer_inv_def split: if_splits)
  next
    case (SIGUSR2 r)
    then show ?thesis using assms Up
      by (cases r) (auto simp: step_def sigusr2_def writer_inv_def split: if_splits)
  qed
qed (use assms in \<open>simp_all add: step_def\<close>)

lemma run_writer_inv: "writer_inv (snd p) \<Longrightarrow> writer_inv (snd (run pers ins p))"
  unfolding run_def by (induction ins arbitrary: p) (simp_all add: step_writer_inv)

lemma writer_inv_listen_state: "writer_inv listen_state"
  by (simp add: writer_inv_def listen_state_def localWriters_def)

text \<open>The flags are only ever set, never cleared.\<close>

lemma handleIncomingMsg_flags_mono:
  assumes "handleIncomingMsg pers m c s = Inr s'"
  shows "(autoMergeReceived s \<longrightarrow> autoMergeReceived s') \<and>
         (localDataChannelReceived s \<longrightarrow> localDataChannelReceived s')"
  using assms
  by (auto simp: handleIncomingMsg_def connErrorHandler_def
      headLookupConnHandler_def localDataConnHandler_def remoteDataConnHandler_def shutdown_def
      register_def split: if_splits option.splits)

lemma step_flags_mono:
  "(autoMergeReceived (snd p) \<longrightarrow> autoMergeReceived (snd (step pers p i))) \<and>
   (localDataChannelReceived (snd p) \<longrightarrow> localDataChannelReceived (snd (step pers p i)))"
proof (cases "fst p")
  case Up
  show ?thesis
  proof (cases i)
    case (Message m c)
    then show ?thesis using Up handleIncomingMsg_flags_mono [of pers m c "snd p"]
      by (auto simp: step_def split: sum.splits)
  next
    case (Closed c)
    then show ?thesis using Up by (auto simp: step_def closed_def)
  next
    case (Signal sg)
    then show ?thesis using Up by (cases sg) (auto simp: step_def on_signal_def)
  next
    case (SIGUSR2 r)
    then show ?thesis using Up by (cases r) (auto simp: step_def sigusr2_def)
  qed
qed (simp_all add: step_def)

lemma run_flags_mono:
  "(autoMergeReceived (snd p) \<longrightarrow> autoMergeReceived (snd (run pers ins p))) \<and>
   (localDataChannelReceived (snd p) \<longrightarrow> localDataChannelReceived (snd (run pers ins p)))"
  unfolding run_def
proof (induction ins arbitrary: p)
  case Nil
  show ?case by simp
next
  case (Cons i ins)
  show ?case using Cons [of "step pers p i"] step_flags_mono [of p pers i] by simp
qed

lemma localDataChannel_rejected:
  "autoMergeReceived s \<Longrightarrow> mtype m = ''localDataChannel'' \<Longrightarrow>
   rejected s (handleIncomingMsg pers m c s)"
  by (cases c) (simp_all add: handleIncomingMsg_def rejected_def connErrorHandler_def emit_def)

lemma autoMerge_rejected:
  "localDataChannelReceived s \<Longrightarrow> mtype m = ''autoMerge'' \<Longrightarrow>
   rejected s (handleIncomingMsg pers m c s)"
  by (simp add: handleIncomingMsg_def rejected_def emit_def)

text \<open>
  C1. In every state the process reaches from \<open>listen_state\<close>, under any sequence of
  messages, closed connections and signals, the two flags \<open>autoMergeReceived\<close> and
  \<open>localDataChannelReceived\<close> are not both set and at most one local write stream has
  been created. Once \<open>autoMergeReceived\<close> is set it stays set, and every
  \<^verbatim>\<open>localDataChannel\<close> message handled from then on is rejected: an error is logged,
  no local write stream is created, no merge is started, and nothing but the log changes.
  Once \<open>localDataChannelReceived\<close> is set it stays set, and every \<^verbatim>\<open>autoMerge\<close>
  message handled from then on is rejected in the same sense.
\<close>

theorem autoMerge_xor_localDataChannel:
  assumes "run pers ins (Up, listen_state) = (st, s)"
  shows "\<not> (autoMergeReceived s \<and> localDataChannelReceived s) \<and>
         localWriters s \<le> 1 \<and>
         (autoMergeReceived s \<longrightarrow>
            (\<forall>ins' m c. mtype m = ''localDataChannel'' \<longrightarrow>
               autoMergeReceived (snd (run pers ins' (st, s))) \<and>
               rejected (snd (run pers ins' (st, s)))
                 (handleIncomingMsg pers m c (snd (run pers ins' (st, s)))))) \<and>
         (localDataChannelReceived s \<longrightarrow>
            (\<forall>ins' m c. mtype m = ''autoMerge'' \<longrightarrow>
               localDataChannelReceived (snd (run pers ins' (st, s))) \<and>
               rejected (snd (run pers ins' (st, s)))
                 (handleIncomingMsg pers m c (snd (run pers ins' (st, s))))))"
proof -
  have inv: "writer_inv s"
    using run_writer_inv [of "(Up, listen_state)" pers ins] assms
    by (simp add: writer_inv_listen_state)
  then have first: "\<not> (autoMergeReceived s \<and> localDataChannelReceived s)"
    and second: "localWriters s \<le> 1"
    by (auto simp: writer_inv_def split: if_splits)
  have third: "autoMergeReceived (snd (run pers ins' (st, s))) \<and>
               rejected (snd (run pers ins' (st, s)))
                 (handleIncomingMsg pers m c (snd (run pers ins' (st, s))))"
    if "autoMergeReceived s" "mtype m = ''localDataChannel''" for ins' m c
  proof -
    have "autoMergeReceived (snd (run pers ins' (st, s)))"
      using run_flags_mono [of "(st, s)" pers ins'] that(1) by simp
    then show ?thesis using localDataChannel_rejected that(2) by blast
  qed
  have fourth: "localDataChannelReceived (snd (run pers ins' (st, s))) \<and>
               rejected (snd (run pers ins' (st, s)))
                 (handleIncomingMsg pers m c (snd (run pers ins' (st, s))))"
    if "localDataChannelReceived s" "mtype m = ''autoMerge''" for ins' m c
  proof -
    have "localDataChannelReceived (snd (run pers ins' (st, s)))"
      using run_flags_mono [of "(st, s)" pers ins'] that(1) by simp
    then show ?thesis using autoMerge_rejected that(2) by blast
  qed
  show ?thesis using first second third fourth by blast
qed

theorem autoMerge_xor_localDataChannel_witness:
  "rejected (snd (run [] [Message autoMergeMsg None] (Up, listen_state)))
     (handleIncomingMsg [] localDataChannelMsg (Some (Conn ''local'' 4))
        (snd (run [] [Message autoMergeMsg None] (Up, listen_state)))) \<and>
   rejected (snd (run [] [Message localDataChannelMsg (Some (Conn ''local'' 4))] (Up, listen_state)))
     (handleIncomingMsg [] autoMergeMsg None
        (snd (run [] [Message localDataChannelMsg (Some (Conn ''local'' 4))] (Up, listen_state))))"
proof -
  let ?a = "listen_state\<lparr>autoMergeReceived := True,
              events := [StartMerge ToLocalWriter, CreateLocalWriteStream ByMerge]\<rparr>"
  let ?l = "listen_state\<lparr>localDataChannelReceived := True,
              connections := [(''local'', Conn ''local'' 4)],
              events := [CreateLocalWriteStream (ByConn (Conn ''local'' 4)),
                         StartMerge (ToConn (Conn ''local'' 4))]\<rparr>"
  have ra: "run [] [Message autoMergeMsg None] (Up, listen_state) = (Up, ?a)"
    by (simp add: run_def step_def listen_state_def handleIncomingMsg_def autoMergeMsg_def
        emit_def)
  have rl: "run [] [Message localDataChannelMsg (Some (Conn ''local'' 4))] (Up, listen_state)
              = (Up, ?l)"
    by (simp add: run_def step_def listen_state_def handleIncomingMsg_def
        localDataChannelMsg_def localDataConnHandler_def registered_def register_def emit_def)
  have fa: "autoMergeReceived ?a" and fl: "localDataChannelReceived ?l"
    by (simp_all add: listen_state_def)
  have ma: "mtype localDataChannelMsg = ''localDataChannel''"
    and ml: "mtype autoMergeMsg = ''autoMerge''"
    by (simp_all add: localDataChannelMsg_def autoMergeMsg_def)
  have "\<forall>ins' m c. mtype m = ''localDataChannel'' \<longrightarrow>
          rejected (snd (run [] ins' (Up, ?a)))
            (handleIncomingMsg [] m c (snd (run [] ins' (Up, ?a))))"
    using autoMerge_xor_localDataChannel [OF ra] fa by blast
  then have "rejected (snd (run [] [] (Up, ?a)))
      (handleIncomingMsg [] localDataChannelMsg (Some (Conn ''local'' 4))
         (snd (run [] [] (Up, ?a))))"
    using ma by blast
  then have "rejected ?a (handleIncomingMsg [] localDataChannelMsg (Some (Conn ''local'' 4)) ?a)"
    by (simp add: run_def)
  moreover have "\<forall>ins' m c. mtype m = ''autoMerge'' \<longrightarrow>
          rejected (snd (run [] ins' (Up, ?l)))
            (handleIncomingMsg [] m c (snd (run [] ins' (Up, ?l))))"
    using autoMerge_xor_localDataChannel [OF rl] fl by blast
  then have "rejected (snd (run [] [] (Up, ?l)))
      (handleIncomingMsg [] autoMergeMsg None (snd (run [] [] (Up, ?l))))"
    using ml by blast
  then have "rejected ?l (handleIncomingMsg [] autoMergeMsg None ?l)"
    by (simp add: run_def)
  ultimately show ?thesis by (simp only: ra rl snd_conv)
qed


section \<open>Signals and shutdown\<close>

lemma handleIncomingMsg_shuttingDown:
  assumes "handleIncomingMsg pers m c s = Inr s'" "mtype m \<noteq> ''kill''"
  shows "shuttingDown s' = shuttingDown s"
  using assms
  by (auto simp: handleIncomingMsg_def connErrorHandler_def
      headLookupConnHandler_def localDataConnHandler_def remoteDataConnHandler_def
      register_def split: if_splits option.splits)

lemma handleIncomingMsg_once:
  assumes "handleIncomingMsg pers m c s = Inr s'"
  shows "sigtermOnce s' = sigtermOnce s \<and> sigintOnce s' = sigintOnce s"
  using assms
  by (auto simp: handleIncomingMsg_def connErrorHandler_def shutdown_def
      headLookupConnHandler_def localDataConnHandler_def remoteDataConnHandler_def
      register_def split: if_splits option.splits)

lemma step_shuttingDown:
  assumes "shuttingDown (snd (step pers p i))"
  shows "shuttingDown (snd p) \<or> (\<exists>m c. i = Message m c \<and> mtype m = ''kill'')"
proof (cases "fst p")
  case Up
  show ?thesis
  proof (cases i)
    case (Message m c)
    then show ?thesis using Up assms handleIncomingMsg_shuttingDown [of pers m c "snd p"]
      by (auto simp: step_def split: sum.splits if_splits)
  next
    case (Closed c)
    then show ?thesis using Up assms by (auto simp: step_def closed_def split: if_splits)
  next
    case (Signal sg)
    then show ?thesis using Up assms
      by (cases sg) (auto simp: step_def on_signal_def split: if_splits)
  next
    case (SIGUSR2 r)
    then show ?thesis using Up assms by (cases r) (auto simp: step_def sigusr2_def)
  qed
qed (use assms in \<open>simp_all add: step_def\<close>)

lemma run_shuttingDown:
  "shuttingDown (snd (run pers ins p)) \<Longrightarrow>
   shuttingDown (snd p) \<or> (\<exists>m c. Message m c \<in> set ins \<and> mtype m = ''kill'')"
  unfolding run_def
proof (induction ins arbitrary: p)
  case Nil
  then show ?case by simp
next
  case (Cons i ins)
  from Cons.IH [of "step pers p i"] Cons.prems
  have "shuttingDown (snd (step pers p i)) \<or> (\<exists>m c. Message m c \<in> set ins \<and> mtype m = ''kill'')"
    by simp
  then show ?case using step_shuttingDown [of pers p i] by auto
qed

lemma step_once:
  "(i \<noteq> Signal SIGTERM \<longrightarrow> sigtermOnce (snd (step pers p i)) = sigtermOnce (snd p)) \<and>
   (i \<noteq> Signal SIGINT \<longrightarrow> sigintOnce (snd (step pers p i)) = sigintOnce (snd p))"
proof (cases "fst p")
  case Up
  show ?thesis
  proof (cases i)
    case (Message m c)
    then show ?thesis using Up handleIncomingMsg_once [of pers m c "snd p"]
      by (auto simp: step_def split: sum.splits if_splits)
  next
    case (Closed c)
    then show ?thesis using Up by (auto simp: step_def closed_def split: if_splits)
  next
    case (Signal sg)
    then show ?thesis using Up
      by (cases sg) (auto simp: step_def on_signal_def split: if_splits)
  next
    case (SIGUSR2 r)
    then show ?thesis using Up by (cases r) (auto simp: step_def sigusr2_def)
  qed
qed (simp_all add: step_def)

lemma run_once:
  "(Signal SIGTERM \<notin> set ins \<longrightarrow> sigtermOnce (snd (run pers ins p)) = sigtermOnce (snd p)) \<and>
   (Signal SIGINT \<notin> set ins \<longrightarrow> sigintOnce (snd (run pers ins p)) = sigintOnce (snd p))"
  unfolding run_def
proof (induction ins arbitrary: p)
  case Nil
  show ?case by simp
next
  case (Cons i ins)
  show ?case using Cons [of "step pers p i"] step_once [of i pers p] by auto
qed

lemma step_status_signal:
  "fst (step pers p i) = KilledBy sg \<Longrightarrow> fst p = KilledBy sg \<or> i = Signal sg"
  by (cases "fst p"; cases i)
     (auto simp: step_def on_signal_def split: sum.splits if_splits signal.splits)

lemma step_Up: "fst (step pers p i) = Up \<Longrightarrow> fst p = Up"
  by (cases "fst p") (simp_all add: step_def)

lemma run_snoc: "run pers (ins @ [i]) p = step pers (run pers ins p) i"
  by (simp add: run_def)

lemma step_once_off:
  "(\<not> sigtermOnce (snd p) \<longrightarrow> \<not> sigtermOnce (snd (step pers p i))) \<and>
   (\<not> sigintOnce (snd p) \<longrightarrow> \<not> sigintOnce (snd (step pers p i)))"
proof (cases "i = Signal SIGTERM \<or> i = Signal SIGINT")
  case True
  then show ?thesis
    by (cases "fst p") (auto simp: step_def on_signal_def split: if_splits)
next
  case False
  then show ?thesis using step_once [of i pers p] by simp
qed

lemma step_signal_Up:
  assumes "fst (step pers p (Signal sg)) = Up"
  shows "(sg = SIGTERM \<longrightarrow> \<not> sigtermOnce (snd (step pers p (Signal sg)))) \<and>
         (sg = SIGINT \<longrightarrow> \<not> sigintOnce (snd (step pers p (Signal sg))))"
proof -
  have "fst p = Up" using assms by (rule step_Up)
  then show ?thesis using assms
    by (cases sg) (auto simp: step_def on_signal_def split: if_splits)
qed

text \<open>A process that is still up has lost the listener of each signal it has received.\<close>

lemma run_received:
  "fst (run pers ins p) = Up \<Longrightarrow>
   (Signal SIGTERM \<in> set ins \<longrightarrow> \<not> sigtermOnce (snd (run pers ins p))) \<and>
   (Signal SIGINT \<in> set ins \<longrightarrow> \<not> sigintOnce (snd (run pers ins p)))"
proof (induction ins rule: rev_induct)
  case Nil
  show ?case by simp
next
  case (snoc i ins)
  have up: "fst (step pers (run pers ins p) i) = Up" using snoc.prems by (simp add: run_snoc)
  then have "fst (run pers ins p) = Up" by (rule step_Up)
  then have ih: "(Signal SIGTERM \<in> set ins \<longrightarrow> \<not> sigtermOnce (snd (run pers ins p))) \<and>
                 (Signal SIGINT \<in> set ins \<longrightarrow> \<not> sigintOnce (snd (run pers ins p)))"
    by (rule snoc.IH)
  have gone_term: "\<not> sigtermOnce (snd (step pers (run pers ins p) i))"
    if "Signal SIGTERM \<in> set (ins @ [i])"
  proof (cases "i = Signal SIGTERM")
    case True
    then show ?thesis using step_signal_Up [of pers "run pers ins p" SIGTERM] up by simp
  next
    case False
    then have "Signal SIGTERM \<in> set ins" using that by simp
    then show ?thesis using ih step_once_off [of "run pers ins p" pers i] by blast
  qed
  have gone_int: "\<not> sigintOnce (snd (step pers (run pers ins p) i))"
    if "Signal SIGINT \<in> set (ins @ [i])"
  proof (cases "i = Signal SIGINT")
    case True
    then show ?thesis using step_signal_Up [of pers "run pers ins p" SIGINT] up by simp
  next
    case False
    then have "Signal SIGINT \<in> set ins" using that by simp
    then show ?thesis using ih step_once_off [of "run pers ins p" pers i] by blast
  qed
  show ?case using gone_term gone_int by (simp only: run_snoc) blast
qed

text \<open>
  C6, as stated, fails: the listeners of \<open>SIGTERM\<close> and \<open>SIGINT\<close> are installed with
  \<^verbatim>\<open>process.once\<close>, so only the first signal of each kind is ignored. A second
  \<open>SIGTERM\<close> finds no listener and ends the process.
\<close>

theorem second_SIGTERM_counterexample:
  "fst (run [] [Signal SIGTERM, Signal SIGTERM] (Up, listen_state)) = KilledBy SIGTERM"
  by (simp add: run_def step_def on_signal_def listen_state_def)

text \<open>
  C6, amended. The first \<open>SIGTERM\<close> and the first \<open>SIGINT\<close> that reach a running db
  child after \<^verbatim>\<open>listen\<close> are ignored: the process stays up and only the one-shot
  listener is gone. A later \<open>SIGTERM\<close> or \<open>SIGINT\<close> finds no listener and ends the
  process at once, with the state as it was, so without the shutdown procedure. The
  shutdown procedure (\<open>shuttingDown\<close>) is entered only when a \<^verbatim>\<open>kill\<close> message has been
  received, never by a signal. \<open>SIGUSR2\<close> appends one line to the log, the dump of the
  merge tree statistics and the connections when \<^verbatim>\<open>mt.stats\<close> succeeds and the error
  when it fails, and changes nothing else.
\<close>

theorem signals_and_kill:
  "(Signal SIGTERM \<notin> set ins \<longrightarrow>
      fst (run pers ins (Up, listen_state)) = Up \<longrightarrow>
      step pers (run pers ins (Up, listen_state)) (Signal SIGTERM)
        = (Up, (snd (run pers ins (Up, listen_state)))\<lparr>sigtermOnce := False\<rparr>)) \<and>
   (Signal SIGINT \<notin> set ins \<longrightarrow>
      fst (run pers ins (Up, listen_state)) = Up \<longrightarrow>
      step pers (run pers ins (Up, listen_state)) (Signal SIGINT)
        = (Up, (snd (run pers ins (Up, listen_state)))\<lparr>sigintOnce := False\<rparr>)) \<and>
   (Signal SIGTERM \<in> set ins \<longrightarrow>
      fst (run pers ins (Up, listen_state)) = Up \<longrightarrow>
      step pers (run pers ins (Up, listen_state)) (Signal SIGTERM)
        = (KilledBy SIGTERM, snd (run pers ins (Up, listen_state)))) \<and>
   (Signal SIGINT \<in> set ins \<longrightarrow>
      fst (run pers ins (Up, listen_state)) = Up \<longrightarrow>
      step pers (run pers ins (Up, listen_state)) (Signal SIGINT)
        = (KilledBy SIGINT, snd (run pers ins (Up, listen_state)))) \<and>
   (shuttingDown (snd (run pers ins (Up, listen_state))) \<longrightarrow>
      (\<exists>m c. Message m c \<in> set ins \<and> mtype m = ''kill'')) \<and>
   step pers (Up, s) (SIGUSR2 r)
     = (Up, s\<lparr>events := events s @
                [case r of Inl err \<Rightarrow> LogErr err
                         | Inr mtStats \<Rightarrow> StatsDump mtStats (map fst (connections s))]\<rparr>)"
proof -
  let ?p = "run pers ins (Up, listen_state)"
  have once: "sigtermOnce listen_state" "sigintOnce listen_state" "\<not> shuttingDown listen_state"
    by (simp_all add: listen_state_def)
  have a: "step pers ?p (Signal SIGTERM) = (Up, (snd ?p)\<lparr>sigtermOnce := False\<rparr>)"
    if "Signal SIGTERM \<notin> set ins" "fst ?p = Up"
    using that run_once [of ins pers "(Up, listen_state)"] once
    by (simp add: step_def on_signal_def)
  have b: "step pers ?p (Signal SIGINT) = (Up, (snd ?p)\<lparr>sigintOnce := False\<rparr>)"
    if "Signal SIGINT \<notin> set ins" "fst ?p = Up"
    using that run_once [of ins pers "(Up, listen_state)"] once
    by (simp add: step_def on_signal_def)
  have a': "step pers ?p (Signal SIGTERM) = (KilledBy SIGTERM, snd ?p)"
    if "Signal SIGTERM \<in> set ins" "fst ?p = Up"
    using that run_received [of pers ins "(Up, listen_state)"]
    by (simp add: step_def on_signal_def)
  have b': "step pers ?p (Signal SIGINT) = (KilledBy SIGINT, snd ?p)"
    if "Signal SIGINT \<in> set ins" "fst ?p = Up"
    using that run_received [of pers ins "(Up, listen_state)"]
    by (simp add: step_def on_signal_def)
  have c: "\<exists>m c. Message m c \<in> set ins \<and> mtype m = ''kill''" if "shuttingDown (snd ?p)"
    using run_shuttingDown [OF that] once by simp
  have d: "step pers (Up, s) (SIGUSR2 r)
     = (Up, s\<lparr>events := events s @
                [case r of Inl err \<Rightarrow> LogErr err
                         | Inr mtStats \<Rightarrow> StatsDump mtStats (map fst (connections s))]\<rparr>)"
    by (cases r) (simp_all add: step_def sigusr2_def emit_def)
  show ?thesis using a b a' b' c d by blast
qed

theorem signals_and_kill_witness:
  "step [] (run [] [SIGUSR2 (Inr ''stats'')] (Up, listen_state)) (Signal SIGTERM)
     = (Up, listen_state\<lparr>sigtermOnce := False, events := [StatsDump ''stats'' []]\<rparr>) \<and>
   step [] (run [] [SIGUSR2 (Inr ''stats'')] (Up, listen_state)) (Signal SIGINT)
     = (Up, listen_state\<lparr>sigintOnce := False, events := [StatsDump ''stats'' []]\<rparr>) \<and>
   step [] (run [] [Signal SIGTERM] (Up, listen_state)) (Signal SIGTERM)
     = (KilledBy SIGTERM, listen_state\<lparr>sigtermOnce := False\<rparr>) \<and>
   step [] (run [] [Signal SIGINT] (Up, listen_state)) (Signal SIGINT)
     = (KilledBy SIGINT, listen_state\<lparr>sigintOnce := False\<rparr>) \<and>
   shuttingDown (snd (run [] [Message killMsg None] (Up, listen_state))) \<and>
   (\<exists>m c. Message m c \<in> set [Message killMsg None] \<and> mtype m = ''kill'')"
proof -
  have r: "run [] [SIGUSR2 (Inr ''stats'')] (Up, listen_state)
             = (Up, listen_state\<lparr>events := [StatsDump ''stats'' []]\<rparr>)"
    by (simp add: run_def step_def sigusr2_def emit_def listen_state_def)
  have t: "run [] [Signal SIGTERM] (Up, listen_state) = (Up, listen_state\<lparr>sigtermOnce := False\<rparr>)"
    by (simp add: run_def step_def on_signal_def listen_state_def)
  have i: "run [] [Signal SIGINT] (Up, listen_state) = (Up, listen_state\<lparr>sigintOnce := False\<rparr>)"
    by (simp add: run_def step_def on_signal_def listen_state_def)
  have k: "shuttingDown (snd (run [] [Message killMsg None] (Up, listen_state)))"
    by (simp add: run_def step_def handleIncomingMsg_def killMsg_def shutdown_def emit_def
        listen_state_def)
  have first: "step [] (run [] [SIGUSR2 (Inr ''stats'')] (Up, listen_state)) (Signal SIGTERM)
     = (Up, listen_state\<lparr>sigtermOnce := False, events := [StatsDump ''stats'' []]\<rparr>) \<and>
   step [] (run [] [SIGUSR2 (Inr ''stats'')] (Up, listen_state)) (Signal SIGINT)
     = (Up, listen_state\<lparr>sigintOnce := False, events := [StatsDump ''stats'' []]\<rparr>)"
    using signals_and_kill [of "[SIGUSR2 (Inr ''stats'')]" "[]" listen_state "Inr ''stats''"]
    by (simp add: r)
  have later_term: "step [] (run [] [Signal SIGTERM] (Up, listen_state)) (Signal SIGTERM)
     = (KilledBy SIGTERM, listen_state\<lparr>sigtermOnce := False\<rparr>)"
    using signals_and_kill [of "[Signal SIGTERM]" "[]" listen_state "Inr ''stats''"]
    by (simp add: t)
  have later_int: "step [] (run [] [Signal SIGINT] (Up, listen_state)) (Signal SIGINT)
     = (KilledBy SIGINT, listen_state\<lparr>sigintOnce := False\<rparr>)"
    using signals_and_kill [of "[Signal SIGINT]" "[]" listen_state "Inr ''stats''"]
    by (simp add: i)
  have "\<exists>m c. Message m c \<in> set [Message killMsg None] \<and> mtype m = ''kill''"
    using signals_and_kill [of "[Message killMsg None]" "[]" listen_state "Inr ''stats''"] k
    by blast
  then show ?thesis using first later_term later_int k by blast
qed


section \<open>Head lookup by id: retries\<close>

lemma lookupById_pending: "pending (w n) x \<Longrightarrow> lookupById w n x ms = lookupById w (Suc n) x (ms + 100)"
  by (subst lookupById.simps) (simp add: pending_def)

lemma lookupById_decisive: "\<not> pending (w n) x \<Longrightarrow> lookupById w n x ms = Some (scanHeads (w n) x, ms)"
  by (subst lookupById.simps) (auto simp add: pending_def split: sum.splits option.splits)

lemma returns_not_always_pending:
  assumes "lookupById w n x ms = Some r"
  shows "\<exists>k. \<not> pending (w k) x"
proof -
  have "\<exists>k. \<not> pending (w' k) x'"
    if step: "(case scanHeads (w' n') x' of Inl err \<Rightarrow> Some (Inl err, ms')
      | Inr None \<Rightarrow>
          if inBufferById (w' n') x' then f w' (Suc n') x' (ms' + 100)
          else Some (Inr None, ms')
      | Inr (Some head) \<Rightarrow> Some (Inr (Some head), ms')) = Some r'"
      and ih: "\<And>w n x ms y. f w n x ms = Some y \<Longrightarrow> \<exists>k. \<not> pending (w k) x"
    for f w' n' x' ms' r'
  proof (cases "pending (w' n') x'")
    case True
    then have "f w' (Suc n') x' (ms' + 100) = Some r'"
      using step by (simp add: pending_def)
    then show ?thesis by (rule ih)
  next
    case False
    then show ?thesis by blast
  qed
  from lookupById.raw_induct [where P = "\<lambda>w n x ms y. \<exists>k. \<not> pending (w k) x"
      and xa = "(((w, n), x), ms)" and y = r, simplified, OF this assms]
  show ?thesis .
qed

lemma lookupById_pending_prefix:
  "(\<And>j. j < k \<Longrightarrow> pending (w (n + j)) x) \<Longrightarrow>
   lookupById w n x ms = lookupById w (n + k) x (ms + 100 * k)"
proof (induction k arbitrary: n ms)
  case 0
  show ?case by simp
next
  case (Suc k)
  have "pending (w n) x" using Suc.prems [of 0] by simp
  then have "lookupById w n x ms = lookupById w (Suc n) x (ms + 100)"
    by (rule lookupById_pending)
  also have "\<dots> = lookupById w (Suc n + k) x (ms + 100 + 100 * k)"
  proof (rule Suc.IH)
    fix j assume "j < k"
    then show "pending (w (Suc n + j)) x" using Suc.prems [of "Suc j"] by simp
  qed
  finally show ?case by (simp add: add.assoc)
qed

lemma lookupById_first_decisive:
  assumes "\<forall>j<k. pending (w j) x" "\<not> pending (w k) x"
  shows "lookupById w 0 x 0 = Some (scanHeads (w k) x, 100 * k)"
proof -
  have "lookupById w 0 x 0 = lookupById w (0 + k) x (0 + 100 * k)"
    by (rule lookupById_pending_prefix) (use assms(1) in simp)
  then show ?thesis using lookupById_decisive [of w k x "100 * k"] assms(2) by simp
qed

lemma stuck_pending: "pending (stuck k) ''y''"
  by (simp add: pending_def stuck_def tree_api_def scanHeads_def heads_def byId_def item_y_def)

text \<open>
  C2, as stated, fails: \<^verbatim>\<open>lookupById\<close> has no retry counter and no timeout. On a tree
  where the id stays in the write buffer and no head reaches the disk, every pass sets the
  timer again and the callback is never called.
\<close>

theorem lookupById_unbounded_counterexample:
  "lookupById stuck 0 ''y'' 0 = None"
proof (rule ccontr)
  assume "lookupById stuck 0 ''y'' 0 \<noteq> None"
  then obtain r where "lookupById stuck 0 ''y'' 0 = Some r" by blast
  then have "\<exists>k. \<not> pending (stuck k) ''y''" by (rule returns_not_always_pending)
  then show False by (simp add: stuck_pending)
qed

text \<open>
  C2, amended. When a pass of the lookup finds no head on disk but the id in the write
  buffer, the lookup runs again after a delay of 100 ms. The lookup itself puts no bound
  on the number of retries: it ends at the first pass that is not pending (a head, an
  error, or the id no longer in the buffer), with the result of that pass and 100 ms of
  delay for each pass before it, and it calls back if and only if there is such a pass.
\<close>

theorem lookupById_retries:
  "(pending (w n) x \<longrightarrow> lookupById w n x ms = lookupById w (Suc n) x (ms + 100)) \<and>
   ((\<forall>j<k. pending (w j) x) \<and> \<not> pending (w k) x \<longrightarrow>
      lookupById w 0 x 0 = Some (scanHeads (w k) x, 100 * k)) \<and>
   (lookupById w 0 x 0 \<noteq> None \<longleftrightarrow> (\<exists>k. \<not> pending (w k) x))"
proof -
  have "lookupById w 0 x 0 \<noteq> None" if ex: "\<exists>k. \<not> pending (w k) x"
  proof -
    define k where "k = (LEAST k. \<not> pending (w k) x)"
    have "\<not> pending (w k) x" unfolding k_def using ex by (rule LeastI_ex)
    moreover have "\<forall>j<k. pending (w j) x"
      unfolding k_def using not_less_Least by blast
    ultimately show ?thesis using lookupById_first_decisive [of k w x] by simp
  qed
  moreover have "\<exists>k. \<not> pending (w k) x" if "lookupById w 0 x 0 \<noteq> None"
    using that returns_not_always_pending [of w 0 x 0] by blast
  ultimately show ?thesis
    using lookupById_pending [of w n x ms] lookupById_first_decisive [of k w x] by blast
qed

lemma flushing_0: "pending (flushing 0) ''y''"
  by (simp add: pending_def flushing_def tree_api_def scanHeads_def heads_def byId_def item_y_def)

lemma flushing_1: "scanHeads (flushing (Suc 0)) ''y'' = Inr (Some item_y)"
  by (simp add: flushing_def tree_api_def scanHeads_def heads_def byId_def item_y_def
      is_head_def selected_def visitHead_def)

theorem lookupById_retries_witness:
  "lookupById flushing 0 ''y'' 0 = Some (Inr (Some item_y), 100)"
proof -
  have "\<forall>j<Suc 0. pending (flushing j) ''y''" using flushing_0 by simp
  moreover have "\<not> pending (flushing (Suc 0)) ''y''" by (simp add: pending_def flushing_1)
  moreover have "(\<forall>j<Suc 0. pending (flushing j) ''y'') \<and> \<not> pending (flushing (Suc 0)) ''y'' \<longrightarrow>
      lookupById flushing 0 ''y'' 0 = Some (scanHeads (flushing (Suc 0)) ''y'', 100 * Suc 0)"
    using lookupById_retries [of flushing 0 "''y''" 0 "Suc 0"] by blast
  ultimately show ?thesis by (simp add: flushing_1)
qed


section \<open>Head lookup by id: the answer\<close>

lemma heads_byId: "heads t (byId x) = liveHeads t x"
  by (auto simp: heads_def byId_def liveHeads_def selected_def intro: filter_cong)

lemma iterateHeads_visitHead_Some:
  "iterateHeads (y # ys) e visitHead (Some z) = Inl HeadAmbiguous"
  by (simp add: visitHead_def)

lemma scanHeads_cases:
  "scanHeads t x =
     (case getHeads t (byId x) of
        ([], None) \<Rightarrow> Inr None
      | ([], Some err) \<Rightarrow> Inl err
      | ([y], None) \<Rightarrow> Inr (Some y)
      | ([y], Some err) \<Rightarrow> Inl err
      | (y # z # ys, e) \<Rightarrow> Inl HeadAmbiguous)"
  by (auto simp: scanHeads_def visitHead_def split: prod.splits list.splits option.splits)

lemma scanHeads_tree_api:
  "scanHeads (tree_api t) x =
     (case liveHeads t x of [] \<Rightarrow> Inr None | [y] \<Rightarrow> Inr (Some y) | y # z # ys \<Rightarrow> Inl HeadAmbiguous)"
  by (simp add: scanHeads_cases tree_api_def heads_byId split: list.splits)

lemma serveById_first_decisive:
  assumes "\<forall>j<k. pending (w j) x" "\<not> pending (w k) x"
  shows "serveById w x = Some (lookupByIdCb (scanHeads (w k) x))"
  using lookupById_first_decisive [OF assms] by (simp add: serveById_def)

text \<open>
  C3, as stated, fails for the empty id: \<^verbatim>\<open>if (req.id)\<close> takes the request
  \<^verbatim>\<open>{id: ""}\<close> for one without an id, so no lookup by id is made. On a tree with two
  live heads of the id \<^verbatim>\<open>""\<close> the handler writes the last version of the tree and the
  connection is served.
\<close>

theorem ambiguous_empty_id_counterexample:
  "1 < length (liveHeads two_empty []) \<and>
   headLookup (\<lambda>n. tree_api two_empty) \<lparr>req_id = Some [], req_prefixExists = None\<rparr>
     = Some (ConnWrite (BsonItem (Item [] ''Bbbb'' [] 2 False False
                                    (Some [(''some'', S ''other'')]))))"
  by (simp add: liveHeads_def two_empty_def is_head_def headLookup_def truthy_def serveLast_def
      tree_api_def)

text \<open>
  C3, amended. When a pass of the lookup finds more than one head of the id that is
  neither deleted nor a conflict in the local tree, \<^verbatim>\<open>lookupById\<close> calls back with the
  error \<open>HeadAmbiguous\<close> and with no item, and its callback in the connection handler
  destroys the connection instead of writing an answer; and for every non-empty id this
  is what the request handler does with the request \<^verbatim>\<open>{id}\<close>: the connection is
  destroyed with \<open>HeadAmbiguous\<close> and nothing is written.
\<close>

theorem ambiguous_head_is_error:
  assumes "\<forall>j<k. pending (w j) x" and "w k = tree_api t" and "1 < length (liveHeads t x)"
  shows "lookupById w 0 x 0 = Some (Inl HeadAmbiguous, 100 * k) \<and>
         serveById w x = Some (ConnError HeadAmbiguous) \<and>
         (x \<noteq> [] \<longrightarrow>
            headLookup w \<lparr>req_id = Some x, req_prefixExists = p\<rparr>
              = Some (ConnError HeadAmbiguous))"
proof -
  have scan: "scanHeads (w k) x = Inl HeadAmbiguous"
    using assms(2,3) by (auto simp: scanHeads_tree_api split: list.splits)
  then have np: "\<not> pending (w k) x" by (simp add: pending_def)
  have serve: "serveById w x = Some (ConnError HeadAmbiguous)"
    using serveById_first_decisive [OF assms(1) np] by (simp add: scan lookupByIdCb_def)
  have "headLookup w \<lparr>req_id = Some x, req_prefixExists = p\<rparr> = serveById w x" if "x \<noteq> []"
    using that by (simp add: headLookup_def truthy_def)
  then show ?thesis
    using lookupById_first_decisive [OF assms(1) np] serve by (simp add: scan)
qed

lemma liveHeads_two_heads: "length (liveHeads two_heads ''abc'') = 2"
  by (simp add: liveHeads_def two_heads_def is_head_def)

theorem ambiguous_head_is_error_witness:
  "lookupById (\<lambda>n. tree_api two_heads) 0 ''abc'' 0 = Some (Inl HeadAmbiguous, 0) \<and>
   serveById (\<lambda>n. tree_api two_heads) ''abc'' = Some (ConnError HeadAmbiguous) \<and>
   headLookup (\<lambda>n. tree_api two_heads) \<lparr>req_id = Some ''abc'', req_prefixExists = None\<rparr>
     = Some (ConnError HeadAmbiguous)"
  using ambiguous_head_is_error [of 0 "\<lambda>n. tree_api two_heads" "''abc''" two_heads None]
  by (simp add: liveHeads_two_heads)

text \<open>
  C4, as stated, fails for the empty id: \<^verbatim>\<open>if (req.id)\<close> takes the request
  \<^verbatim>\<open>{id: ""}\<close> for one without an id, and the last version of the tree is written,
  though the buffer is empty and the tree has no head of the id \<^verbatim>\<open>""\<close>.
\<close>

theorem headLookup_empty_id_counterexample:
  "liveHeads flushed [] = [] \<and> t_buffer flushed = [] \<and>
   headLookup (\<lambda>n. tree_api flushed) \<lparr>req_id = Some [], req_prefixExists = None\<rparr>
     = Some (ConnWrite (BsonItem item_y))"
  by (simp add: liveHeads_def flushed_def item_y_def headLookup_def truthy_def serveLast_def
      tree_api_def)

text \<open>
  The lookup asks the write buffer only when it has found no head: a head on disk is
  answered at once, also when a newer write of the id is still in the buffer. Here the
  tombstone of \<^verbatim>\<open>y\<close> is in the buffer; the answer is the old head, and the tree has no
  live head of \<^verbatim>\<open>y\<close> once the tombstone is on disk.
\<close>

lemma stale_head_answered:
  "inBufferById (tree_api deleting) ''y'' \<and> liveHeads deleted ''y'' = [] \<and>
   headLookup (\<lambda>n. tree_api (if n = 0 then deleting else deleted))
      \<lparr>req_id = Some ''y'', req_prefixExists = None\<rparr>
     = Some (ConnWrite (BsonItem item_y))"
proof -
  have scan: "scanHeads (tree_api deleting) ''y'' = Inr (Some item_y)"
    by (simp add: scanHeads_tree_api liveHeads_def deleting_def item_y_def is_head_def)
  have "serveById (\<lambda>n. tree_api (if n = 0 then deleting else deleted)) ''y''
          = Some (ConnWrite (BsonItem item_y))"
    using serveById_first_decisive [of 0 "\<lambda>n. tree_api (if n = 0 then deleting else deleted)" "''y''"]
    by (simp add: pending_def scan lookupByIdCb_def)
  then show ?thesis
    by (simp add: headLookup_def truthy_def tree_api_def deleting_def tomb_y_def
        liveHeads_def deleted_def item_y_def is_head_def)
qed

text \<open>
  C4, amended. For every non-empty id, \<^verbatim>\<open>headLookup({id})\<close> answers from the local
  tree \<open>t\<close> as the first pass of the lookup that is not pending reads it, that is the
  first pass that finds a head on disk or finds the id no longer in the write buffer. The
  answer is the empty BSON object if and only if \<open>t\<close> has no head of the id that is
  neither deleted nor a conflict, and then the id is no longer in the write buffer; when
  \<open>t\<close> has exactly one such head, the answer is that head, whether or not a newer write
  of the id is still in the buffer. While every pass is pending there is no answer.
\<close>

theorem headLookup_by_id:
  assumes "x \<noteq> []"
  shows "((\<forall>j<k. pending (w j) x) \<and> \<not> pending (w k) x \<and> w k = tree_api t \<longrightarrow>
            (headLookup w \<lparr>req_id = Some x, req_prefixExists = p\<rparr> = Some (ConnWrite BsonEmpty)
               \<longleftrightarrow> liveHeads t x = []) \<and>
            (liveHeads t x = [] \<longrightarrow> \<not> inBufferById (w k) x) \<and>
            (\<forall>y. liveHeads t x = [y] \<longrightarrow>
               headLookup w \<lparr>req_id = Some x, req_prefixExists = p\<rparr>
                 = Some (ConnWrite (BsonItem y)))) \<and>
         ((\<forall>j. pending (w j) x) \<longrightarrow>
            headLookup w \<lparr>req_id = Some x, req_prefixExists = p\<rparr> = None)"
proof -
  have req: "headLookup w \<lparr>req_id = Some x, req_prefixExists = p\<rparr> = serveById w x"
    using assms by (simp add: headLookup_def truthy_def)
  have decided: "(serveById w x = Some (ConnWrite BsonEmpty) \<longleftrightarrow> liveHeads t x = []) \<and>
        (liveHeads t x = [] \<longrightarrow> \<not> inBufferById (w k) x) \<and>
        (\<forall>y. liveHeads t x = [y] \<longrightarrow> serveById w x = Some (ConnWrite (BsonItem y)))"
    if pre: "\<forall>j<k. pending (w j) x" and np: "\<not> pending (w k) x" and t: "w k = tree_api t"
  proof -
    have serve: "serveById w x = Some (lookupByIdCb (scanHeads (tree_api t) x))"
      using serveById_first_decisive [OF pre np] t by simp
    have "\<not> inBufferById (w k) x" if "liveHeads t x = []"
      using np t that by (simp add: pending_def scanHeads_tree_api)
    then show ?thesis
      by (auto simp: serve scanHeads_tree_api lookupByIdCb_def split: list.splits)
  qed
  have never: "serveById w x = None" if all: "\<forall>j. pending (w j) x"
  proof (rule ccontr)
    assume "serveById w x \<noteq> None"
    then obtain r where "lookupById w 0 x 0 = Some r" by (auto simp: serveById_def)
    then have "\<exists>k. \<not> pending (w k) x" by (rule returns_not_always_pending)
    then show False using all by blast
  qed
  show ?thesis unfolding req using decided never by blast
qed

lemma liveHeads_flushed: "liveHeads flushed ''y'' = [item_y]"
  by (simp add: liveHeads_def flushed_def item_y_def is_head_def)

theorem headLookup_by_id_witness:
  "headLookup flushing \<lparr>req_id = Some ''y'', req_prefixExists = None\<rparr>
     = Some (ConnWrite (BsonItem item_y)) \<and>
   headLookup (\<lambda>n. tree_api flushed) \<lparr>req_id = Some ''z'', req_prefixExists = None\<rparr>
     = Some (ConnWrite BsonEmpty) \<and>
   headLookup (\<lambda>n. tree_api deleting) \<lparr>req_id = Some ''y'', req_prefixExists = None\<rparr>
     = Some (ConnWrite (BsonItem item_y)) \<and>
   headLookup stuck \<lparr>req_id = Some ''y'', req_prefixExists = None\<rparr> = None"
proof -
  have p0: "\<forall>j<Suc 0. pending (flushing j) ''y''" by (simp add: flushing_0)
  have f1: "flushing (Suc 0) = tree_api flushed" by (simp add: flushing_def flushed_def)
  have n1: "\<not> pending (flushing (Suc 0)) ''y''" by (simp add: pending_def flushing_1)
  have n2: "\<not> pending (tree_api flushed) ''z''" by (simp add: pending_def tree_api_def flushed_def)
  have z: "liveHeads flushed ''z'' = []" by (simp add: liveHeads_def flushed_def item_y_def)
  have n3: "\<not> pending (tree_api deleting) ''y''"
    by (simp add: pending_def scanHeads_tree_api liveHeads_def deleting_def item_y_def is_head_def)
  have d: "liveHeads deleting ''y'' = [item_y]"
    by (simp add: liveHeads_def deleting_def item_y_def is_head_def)
  have "headLookup flushing \<lparr>req_id = Some ''y'', req_prefixExists = None\<rparr>
          = Some (ConnWrite (BsonItem item_y))"
    using headLookup_by_id [of "''y''" "Suc 0" flushing flushed None] p0 n1 f1 liveHeads_flushed
    by simp
  moreover have "headLookup (\<lambda>n. tree_api flushed) \<lparr>req_id = Some ''z'', req_prefixExists = None\<rparr>
          = Some (ConnWrite BsonEmpty)"
    using headLookup_by_id [of "''z''" 0 "\<lambda>n. tree_api flushed" flushed None] n2 z by simp
  moreover have "headLookup (\<lambda>n. tree_api deleting) \<lparr>req_id = Some ''y'', req_prefixExists = None\<rparr>
          = Some (ConnWrite (BsonItem item_y))"
    using headLookup_by_id [of "''y''" 0 "\<lambda>n. tree_api deleting" deleting None] n3 d by simp
  moreover have "headLookup stuck \<lparr>req_id = Some ''y'', req_prefixExists = None\<rparr> = None"
    using headLookup_by_id [of "''y''" 0 stuck flushed None] stuck_pending by simp
  ultimately show ?thesis by blast
qed

section \<open>The head lookup channel: requests and answers\<close>

lemma serveById_flushing: "serveById flushing ''y'' = Some (ConnWrite (BsonItem item_y))"
proof -
  have "\<forall>j<Suc 0. pending (flushing j) ''y''" by (simp add: flushing_0)
  moreover have "\<not> pending (flushing (Suc 0)) ''y''" by (simp add: pending_def flushing_1)
  ultimately show ?thesis
    using serveById_first_decisive [of "Suc 0" flushing "''y''"]
    by (simp add: flushing_1 lookupByIdCb_def)
qed

lemma iterateHeads_keep_last:
  "iterateHeads hs e (\<lambda>x head. Inr (Some x)) acc =
     (case e of Some err \<Rightarrow> Inl err | None \<Rightarrow> Inr (if hs = [] then acc else Some (last hs)))"
  by (induction hs arbitrary: acc) (auto split: option.splits)

lemma servePrefix_cases:
  assumes "getHeads t (byPrefix p) = (hs, e)"
  shows "servePrefix t p =
           (case e of
              Some err \<Rightarrow> ConnError err
            | None \<Rightarrow> ConnWrite (if hs = [] then BsonEmpty else BsonItem (last hs)))"
  using assms by (auto simp: servePrefix_def iterateHeads_keep_last split: option.splits)

lemma serveById_cases:
  "map_option (\<lambda>a. [a]) (serveById w x) =
     (case lookupById w 0 x 0 of
        None \<Rightarrow> None
      | Some (Inl e, ms) \<Rightarrow> Some [ConnError e]
      | Some (Inr None, ms) \<Rightarrow> Some [ConnWrite BsonEmpty]
      | Some (Inr (Some h), ms) \<Rightarrow> Some [ConnWrite (BsonItem h)])"
  by (auto simp: serveById_def lookupByIdCb_def split: option.splits sum.splits prod.splits)

lemma readable_Cons: "readable w (req # q) = (map_option (\<lambda>a. [a]) (headLookup w req), q)"
  by (simp add: readable_def ls_read_def onReadable_def)

text \<open>
  C9, as stated, fails in its last part: a request that the parse stream accepts is not
  always answered. With two live heads of the requested id the lookup ends with an error,
  the connection is destroyed and no BSON document is written.
\<close>

theorem accepted_request_unanswered_counterexample:
  "length ''abc'' \<le> maxDocLength \<and>
   onData (\<lambda>l. Inr \<lparr>req_id = Some l, req_prefixExists = None\<rparr>) ''abc'' []
     = ([], [\<lparr>req_id = Some ''abc'', req_prefixExists = None\<rparr>]) \<and>
   readable (\<lambda>n. tree_api two_heads) [\<lparr>req_id = Some ''abc'', req_prefixExists = None\<rparr>]
     = (Some [ConnError HeadAmbiguous], [])"
proof -
  have "serveById (\<lambda>n. tree_api two_heads) ''abc'' = Some (ConnError HeadAmbiguous)"
    using serveById_first_decisive [of 0 "\<lambda>n. tree_api two_heads" "''abc''"]
    by (simp add: pending_def scanHeads_tree_api liveHeads_two_heads lookupByIdCb_def
        liveHeads_def two_heads_def is_head_def)
  then show ?thesis
    by (simp add: onData_def ldjson_def maxDocLength_def readable_Cons headLookup_def truthy_def)
qed

text \<open>
  C9, amended. On the head lookup channel a request line of more than 512 bytes is
  rejected: the parse stream errors, the connection is destroyed, the request is not
  queued and nothing is written. A line of at most 512 bytes that parses is queued, and
  nothing is written for it until the \<^verbatim>\<open>readable\<close> listener reads it; the listener reads
  one request per \<^verbatim>\<open>readable\<close> event and leaves the others queued. A request that is
  read is answered with at most one BSON document: with exactly one (the item that was
  found, or the empty object) when its lookup ends without an error, with none when its
  lookup ends with an error (the connection is destroyed instead), and with none when
  its lookup does not end. The lookup is \<^verbatim>\<open>lookupById\<close> for a request with an id, the
  iteration of \<^verbatim>\<open>getHeads\<close> for one with a prefix, and \<^verbatim>\<open>lastVersion\<close> followed by
  \<^verbatim>\<open>getByVersion\<close> otherwise.
\<close>

theorem headLookup_channel:
  "(maxDocLength < length line \<longrightarrow> onData parse line q = ([ConnError DocTooLong], q)) \<and>
   (length line \<le> maxDocLength \<and> parse line = Inr req \<longrightarrow>
      onData parse line q = ([], q @ [req])) \<and>
   readable w [] = (Some [], []) \<and>
   snd (readable w (req # q)) = q \<and>
   (\<forall>as. fst (readable w (req # q)) = Some as \<longrightarrow>
      (\<exists>d. as = [ConnWrite d]) \<or> (\<exists>e. as = [ConnError e])) \<and>
   (\<forall>x. truthy (req_id req) = Some x \<longrightarrow>
      fst (readable w (req # q)) =
        (case lookupById w 0 x 0 of
           None \<Rightarrow> None
         | Some (Inl e, ms) \<Rightarrow> Some [ConnError e]
         | Some (Inr None, ms) \<Rightarrow> Some [ConnWrite BsonEmpty]
         | Some (Inr (Some h), ms) \<Rightarrow> Some [ConnWrite (BsonItem h)])) \<and>
   (\<forall>pre hs e.
      truthy (req_id req) = None \<and> truthy (req_prefixExists req) = Some pre \<and>
      getHeads (w 0) (byPrefix pre) = (hs, e) \<longrightarrow>
      fst (readable w (req # q)) =
        Some [case e of
                Some err \<Rightarrow> ConnError err
              | None \<Rightarrow> ConnWrite (if hs = [] then BsonEmpty else BsonItem (last hs))]) \<and>
   (truthy (req_id req) = None \<and> truthy (req_prefixExists req) = None \<longrightarrow>
      fst (readable w (req # q)) =
        Some [case lastVersion (w 0) of
                Inl e \<Rightarrow> ConnError e
              | Inr v \<Rightarrow>
                  (case truthy v of
                     None \<Rightarrow> ConnWrite BsonEmpty
                   | Some ver \<Rightarrow>
                       (case getByVersion (w 0) ver of
                          Inl e \<Rightarrow> ConnError e
                        | Inr None \<Rightarrow> ConnError (Error ''head not found'')
                        | Inr (Some h) \<Rightarrow> ConnWrite (BsonItem h)))])"
proof -
  have long: "onData parse line q = ([ConnError DocTooLong], q)" if "maxDocLength < length line"
    using that by (simp add: onData_def ldjson_def)
  have short: "onData parse line q = ([], q @ [req])"
    if "length line \<le> maxDocLength \<and> parse line = Inr req"
    using that by (simp add: onData_def ldjson_def)
  have none: "readable w [] = (Some [], [])"
    by (simp add: readable_def ls_read_def onReadable_def)
  have rest: "snd (readable w (req # q)) = q" by (simp add: readable_Cons)
  have shape: "(\<exists>d. as = [ConnWrite d]) \<or> (\<exists>e. as = [ConnError e])"
    if "fst (readable w (req # q)) = Some as" for as
  proof -
    have "map_option (\<lambda>a. [a]) (headLookup w req) = Some as"
      using that by (simp add: readable_Cons)
    then obtain a where "as = [a]" by auto
    then show ?thesis by (cases a) auto
  qed
  have byid: "fst (readable w (req # q)) =
        (case lookupById w 0 x 0 of
           None \<Rightarrow> None
         | Some (Inl e, ms) \<Rightarrow> Some [ConnError e]
         | Some (Inr None, ms) \<Rightarrow> Some [ConnWrite BsonEmpty]
         | Some (Inr (Some h), ms) \<Rightarrow> Some [ConnWrite (BsonItem h)])"
    if "truthy (req_id req) = Some x" for x
    using that serveById_cases [of w x] by (simp add: readable_Cons headLookup_def)
  have bypre: "fst (readable w (req # q)) =
        Some [case e of
                Some err \<Rightarrow> ConnError err
              | None \<Rightarrow> ConnWrite (if hs = [] then BsonEmpty else BsonItem (last hs))]"
    if "truthy (req_id req) = None \<and> truthy (req_prefixExists req) = Some pre \<and>
        getHeads (w 0) (byPrefix pre) = (hs, e)" for pre hs e
    using that servePrefix_cases [of "w 0" pre hs e] by (simp add: readable_Cons headLookup_def)
  have bylast: "fst (readable w (req # q)) =
        Some [case lastVersion (w 0) of
                Inl e \<Rightarrow> ConnError e
              | Inr v \<Rightarrow>
                  (case truthy v of
                     None \<Rightarrow> ConnWrite BsonEmpty
                   | Some ver \<Rightarrow>
                       (case getByVersion (w 0) ver of
                          Inl e \<Rightarrow> ConnError e
                        | Inr None \<Rightarrow> ConnError (Error ''head not found'')
                        | Inr (Some h) \<Rightarrow> ConnWrite (BsonItem h)))]"
    if "truthy (req_id req) = None \<and> truthy (req_prefixExists req) = None"
    using that by (simp add: readable_Cons headLookup_def serveLast_def)
  show ?thesis using long short none rest shape byid bypre bylast by blast
qed

text \<open>
  Two requests that wait in the stream and one \<^verbatim>\<open>readable\<close> event: the first is
  answered, the second is still queued.
\<close>

lemma one_request_per_readable:
  "readable (\<lambda>n. tree_api flushed)
      [\<lparr>req_id = Some ''z'', req_prefixExists = None\<rparr>,
       \<lparr>req_id = Some ''y'', req_prefixExists = None\<rparr>]
     = (Some [ConnWrite BsonEmpty], [\<lparr>req_id = Some ''y'', req_prefixExists = None\<rparr>])"
proof -
  have "\<not> pending (tree_api flushed) ''z''"
    by (simp add: pending_def tree_api_def flushed_def)
  then have "serveById (\<lambda>n. tree_api flushed) ''z'' = Some (ConnWrite BsonEmpty)"
    using serveById_first_decisive [of 0 "\<lambda>n. tree_api flushed" "''z''"]
    by (simp add: scanHeads_tree_api liveHeads_def flushed_def item_y_def lookupByIdCb_def)
  then show ?thesis by (simp add: readable_Cons headLookup_def truthy_def)
qed

theorem headLookup_channel_witness:
  "onData (\<lambda>l. Inr \<lparr>req_id = Some l, req_prefixExists = None\<rparr>) (replicate 513 CHR ''a'') []
     = ([ConnError DocTooLong], []) \<and>
   onData (\<lambda>l. Inr \<lparr>req_id = Some l, req_prefixExists = None\<rparr>) ''y'' []
     = ([], [\<lparr>req_id = Some ''y'', req_prefixExists = None\<rparr>]) \<and>
   readable flushing [\<lparr>req_id = Some ''y'', req_prefixExists = None\<rparr>]
     = (Some [ConnWrite (BsonItem item_y)], []) \<and>
   readable (\<lambda>n. tree_api two_heads) [\<lparr>req_id = Some ''abc'', req_prefixExists = None\<rparr>]
     = (Some [ConnError HeadAmbiguous], []) \<and>
   readable stuck [\<lparr>req_id = Some ''y'', req_prefixExists = None\<rparr>] = (None, []) \<and>
   readable (\<lambda>n. tree_api flushed) [\<lparr>req_id = None, req_prefixExists = Some ''y''\<rparr>]
     = (Some [ConnWrite (BsonItem item_y)], []) \<and>
   readable (\<lambda>n. broken) [\<lparr>req_id = None, req_prefixExists = None\<rparr>]
     = (Some [ConnError (Error ''read error'')], [])"
proof -
  let ?parse = "\<lambda>l. Inr \<lparr>req_id = Some l, req_prefixExists = None\<rparr>"
  let ?y = "\<lparr>req_id = Some ''y'', req_prefixExists = None\<rparr>"
  let ?abc = "\<lparr>req_id = Some ''abc'', req_prefixExists = None\<rparr>"
  let ?pre = "\<lparr>req_id = None, req_prefixExists = Some ''y''\<rparr>"
  let ?last = "\<lparr>req_id = None, req_prefixExists = None\<rparr>"
  have ty: "truthy (req_id ?y) = Some ''y''" and tabc: "truthy (req_id ?abc) = Some ''abc''"
    and tpre: "truthy (req_id ?pre) = None \<and> truthy (req_prefixExists ?pre) = Some ''y''"
    and tlast: "truthy (req_id ?last) = None \<and> truthy (req_prefixExists ?last) = None"
    by (simp_all add: truthy_def)
  have ly: "lookupById flushing 0 ''y'' 0 = Some (Inr (Some item_y), 100)"
    using lookupById_first_decisive [of "Suc 0" flushing "''y''"] flushing_0
    by (simp add: pending_def flushing_1)
  have labc: "lookupById (\<lambda>n. tree_api two_heads) 0 ''abc'' 0 = Some (Inl HeadAmbiguous, 0)"
    using lookupById_first_decisive [of 0 "\<lambda>n. tree_api two_heads" "''abc''"]
    by (simp add: pending_def scanHeads_tree_api liveHeads_def two_heads_def is_head_def)
  have lstuck: "lookupById stuck 0 ''y'' 0 = None"
  proof (rule ccontr)
    assume "lookupById stuck 0 ''y'' 0 \<noteq> None"
    then obtain r where "lookupById stuck 0 ''y'' 0 = Some r" by blast
    then have "\<exists>k. \<not> pending (stuck k) ''y''" by (rule returns_not_always_pending)
    then show False by (simp add: stuck_pending)
  qed
  have gpre: "getHeads (tree_api flushed) (byPrefix ''y'') = ([item_y], None)"
    by (simp add: tree_api_def heads_def byPrefix_def flushed_def item_y_def is_head_def
        selected_def)
  have "onData ?parse (replicate 513 CHR ''a'') [] = ([ConnError DocTooLong], [])"
    using headLookup_channel [of "replicate 513 CHR ''a''" ?parse "[]"]
    by (simp add: maxDocLength_def)
  moreover have "onData ?parse ''y'' [] = ([], [?y])"
    using headLookup_channel [of "''y''" ?parse "[]" ?y] by (simp add: maxDocLength_def)
  moreover have "readable flushing [?y] = (Some [ConnWrite (BsonItem item_y)], [])"
  proof -
    have "fst (readable flushing [?y]) = Some [ConnWrite (BsonItem item_y)]"
      using headLookup_channel [of "[]" ?parse "[]" ?y flushing] ty by (simp add: ly)
    moreover have "snd (readable flushing [?y]) = []"
      using headLookup_channel [of "[]" ?parse "[]" ?y flushing] by blast
    ultimately show ?thesis by (simp add: prod_eq_iff)
  qed
  moreover have "readable (\<lambda>n. tree_api two_heads) [?abc] = (Some [ConnError HeadAmbiguous], [])"
  proof -
    have "fst (readable (\<lambda>n. tree_api two_heads) [?abc]) = Some [ConnError HeadAmbiguous]"
      using headLookup_channel [of "[]" ?parse "[]" ?abc "\<lambda>n. tree_api two_heads"] tabc
      by (simp add: labc)
    moreover have "snd (readable (\<lambda>n. tree_api two_heads) [?abc]) = []"
      using headLookup_channel [of "[]" ?parse "[]" ?abc "\<lambda>n. tree_api two_heads"] by blast
    ultimately show ?thesis by (simp add: prod_eq_iff)
  qed
  moreover have "readable stuck [?y] = (None, [])"
  proof -
    have "fst (readable stuck [?y]) = None"
      using headLookup_channel [of "[]" ?parse "[]" ?y stuck] ty by (simp add: lstuck)
    moreover have "snd (readable stuck [?y]) = []"
      using headLookup_channel [of "[]" ?parse "[]" ?y stuck] by blast
    ultimately show ?thesis by (simp add: prod_eq_iff)
  qed
  moreover have "readable (\<lambda>n. tree_api flushed) [?pre] = (Some [ConnWrite (BsonItem item_y)], [])"
  proof -
    have "fst (readable (\<lambda>n. tree_api flushed) [?pre]) = Some [ConnWrite (BsonItem item_y)]"
      using headLookup_channel [of "[]" ?parse "[]" ?pre "\<lambda>n. tree_api flushed"] tpre gpre
      by simp
    moreover have "snd (readable (\<lambda>n. tree_api flushed) [?pre]) = []"
      using headLookup_channel [of "[]" ?parse "[]" ?pre "\<lambda>n. tree_api flushed"] by blast
    ultimately show ?thesis by (simp add: prod_eq_iff)
  qed
  moreover have "readable (\<lambda>n. broken) [?last] = (Some [ConnError (Error ''read error'')], [])"
  proof -
    have "fst (readable (\<lambda>n. broken) [?last]) = Some [ConnError (Error ''read error'')]"
      using headLookup_channel [of "[]" ?parse "[]" ?last "\<lambda>n. broken"] tlast
      by (simp add: broken_def)
    moreover have "snd (readable (\<lambda>n. broken) [?last]) = []"
      using headLookup_channel [of "[]" ?parse "[]" ?last "\<lambda>n. broken"] by blast
    ultimately show ?thesis by (simp add: prod_eq_iff)
  qed
  ultimately show ?thesis by blast
qed

section \<open>Head lookup without id: the last version\<close>

lemma lastItem_None: "lastItem xs = None \<longleftrightarrow> xs = []"
  by (induction xs) (auto split: option.splits)

lemma lastItem_Some:
  "lastItem xs = Some x \<Longrightarrow> x \<in> set xs \<and> (\<forall>y\<in>set xs. h_i y \<le> h_i x)"
proof (induction xs arbitrary: x)
  case Nil
  then show ?case by simp
next
  case (Cons a xs)
  show ?case
  proof (cases "lastItem xs")
    case None
    then show ?thesis using Cons.prems by (simp add: lastItem_None)
  next
    case (Some y)
    then show ?thesis using Cons.prems Cons.IH [of y]
      by (auto split: if_splits)
  qed
qed

lemma find_by_version:
  "distinct (map h_v xs) \<Longrightarrow> x \<in> set xs \<Longrightarrow> find (\<lambda>y. h_v y = h_v x) xs = Some x"
  by (induction xs) (auto simp: image_iff)

lemma serveLast_tree_api:
  assumes "tree_ok t"
  shows "serveLast (tree_api t) =
           (case lastItem (t_items t) of
              None \<Rightarrow> ConnWrite BsonEmpty
            | Some x \<Rightarrow> ConnWrite (BsonItem x))"
proof (cases "lastItem (t_items t)")
  case None
  then show ?thesis by (simp add: serveLast_def tree_api_def truthy_def)
next
  case (Some x)
  then have x: "x \<in> set (t_items t)" using lastItem_Some by blast
  then have "h_v x \<noteq> []" using assms by (simp add: tree_ok_def list_all_iff)
  moreover have "find (\<lambda>y. h_v y = h_v x) (t_items t) = Some x"
    using assms x by (simp add: tree_ok_def find_by_version)
  ultimately show ?thesis using Some by (simp add: serveLast_def tree_api_def truthy_def)
qed

lemma serveLast_error:
  assumes "serveLast t = ConnError e"
  shows "lastVersion t = Inl e \<or>
         (\<exists>v. v \<noteq> [] \<and> lastVersion t = Inr (Some v) \<and>
              (getByVersion t v = Inl e \<or>
               getByVersion t v = Inr None \<and> e = Error ''head not found''))"
  using assms
  by (auto simp: serveLast_def truthy_def split: sum.splits option.splits if_splits)

text \<open>
  C10, as stated, fails in its last part: the handler also ends with an error when
  \<^verbatim>\<open>lastVersion\<close> itself reports one, before any version is fetched back.
\<close>

theorem lastVersion_error_counterexample:
  "headLookup (\<lambda>n. broken) \<lparr>req_id = None, req_prefixExists = None\<rparr>
     = Some (ConnError (Error ''read error'')) \<and>
   (\<forall>v. getByVersion broken v = Inr (Some item_y))"
  by (simp add: headLookup_def truthy_def serveLast_def broken_def)

text \<open>
  C10, amended. For a request with neither \<^verbatim>\<open>id\<close> nor \<^verbatim>\<open>prefixExists\<close>: on a tree
  that keeps its invariants the handler writes the item with the largest insertion
  sequence \<open>i\<close> of the local tree, or the empty BSON object when the tree is empty. It
  ends with an error only if \<^verbatim>\<open>lastVersion\<close> reports an error, or the last version
  cannot be fetched back by version (\<^verbatim>\<open>getByVersion\<close> reports an error or finds nothing).
\<close>

theorem headLookup_last_version:
  "(w 0 = tree_api t \<and> tree_ok t \<longrightarrow>
      headLookup w \<lparr>req_id = None, req_prefixExists = None\<rparr>
        = Some (case lastItem (t_items t) of
                  None \<Rightarrow> ConnWrite BsonEmpty
                | Some x \<Rightarrow> ConnWrite (BsonItem x)) \<and>
      (lastItem (t_items t) = None \<longleftrightarrow> t_items t = []) \<and>
      (\<forall>x. lastItem (t_items t) = Some x \<longrightarrow>
           x \<in> set (t_items t) \<and> (\<forall>y\<in>set (t_items t). h_i y \<le> h_i x))) \<and>
   (headLookup w \<lparr>req_id = None, req_prefixExists = None\<rparr> = Some (ConnError e) \<longrightarrow>
      lastVersion (w 0) = Inl e \<or>
      (\<exists>v. v \<noteq> [] \<and> lastVersion (w 0) = Inr (Some v) \<and>
           (getByVersion (w 0) v = Inl e \<or>
            getByVersion (w 0) v = Inr None \<and> e = Error ''head not found'')))"
proof -
  have req: "headLookup w \<lparr>req_id = None, req_prefixExists = None\<rparr> = Some (serveLast (w 0))"
    by (simp add: headLookup_def truthy_def)
  show ?thesis
    using serveLast_tree_api [of t] serveLast_error [of "w 0" e] lastItem_None [of "t_items t"]
      lastItem_Some [of "t_items t"]
    by (auto simp: req)
qed

theorem headLookup_last_version_witness:
  "headLookup (\<lambda>n. tree_api two_heads) \<lparr>req_id = None, req_prefixExists = None\<rparr>
     = Some (ConnWrite (BsonItem (Item ''abc'' ''Bbbb'' [] 2 False False (Some [(''some'', S ''other'')])))) \<and>
   headLookup (\<lambda>n. broken) \<lparr>req_id = None, req_prefixExists = None\<rparr>
     = Some (ConnError (Error ''read error'')) \<and> lastVersion broken = Inl (Error ''read error'')"
proof -
  have ok: "tree_ok two_heads" by (simp add: tree_ok_def two_heads_def)
  have "headLookup (\<lambda>n. broken) \<lparr>req_id = None, req_prefixExists = None\<rparr>
     = Some (ConnError (Error ''read error''))"
    by (simp add: headLookup_def truthy_def serveLast_def broken_def)
  then show ?thesis
    using headLookup_last_version [of "\<lambda>n. tree_api two_heads" two_heads "Error ''x''"]
      headLookup_last_version [of "\<lambda>n. broken" two_heads "Error ''read error''"] ok
    by (simp add: two_heads_def) (simp add: broken_def)
qed


section \<open>Exit codes of the start-up\<close>

lemmas startup_defs = startup_def withLog_def ensurePath_def chrootAndOpen_def
  log_opened_def hooks_loaded_def ids_found_def chroot_dir_made_def path_ready_def
  uid_of_def gid_of_def

text \<open>
  C5, as stated, fails in its first part: when the log cannot be opened the listener
  throws, and the process ends with an uncaught exception instead of the exit code 2.
  The exit code 2 is the one of hooks that cannot be loaded.
\<close>

theorem log_open_failure_counterexample:
  "startup (good_env\<lparr>open_log := LoggerErr (Error ''EACCES'')\<rparr>) mydb
     = UncaughtException (Error ''TypeError'') \<and>
   startup (good_env\<lparr>requireJsFromDirsSync := (\<lambda>dirs. False)\<rparr>) mydb = Exit 2"
  by (simp add: startup_def withLog_def good_env_def mydb_def)

lemma exit2: "startup env m = Exit 2 \<longleftrightarrow> log_opened env m \<and> \<not> hooks_loaded env m"
  by (auto simp: startup_defs split: logger_outcome.splits option.splits stat_result.splits if_splits)

lemma exit3: "startup env m = Exit 3 \<longleftrightarrow>
      hooks_loaded env m \<and> (\<not> ids_found env m \<or> setrlimit env \<and> \<not> mkdirp env (dbroot_of m))"
  by (auto simp: startup_defs split: logger_outcome.splits option.splits stat_result.splits if_splits)

lemma exit4: "startup env m = Exit 4 \<longleftrightarrow>
      chroot_dir_made env m \<and> (\<exists>code. stat env (datapath m) = StatError code \<and> code \<noteq> ''ENOENT'')"
  by (auto simp: startup_defs split: logger_outcome.splits option.splits stat_result.splits if_splits)

lemma exit5: "startup env m = Exit 5 \<longleftrightarrow>
      chroot_dir_made env m \<and> stat env (datapath m) = StatError ''ENOENT'' \<and> \<not> mkdir env (datapath m)"
  by (auto simp: startup_defs split: logger_outcome.splits option.splits stat_result.splits if_splits)

lemma exit6: "startup env m = Exit 6 \<longleftrightarrow>
      chroot_dir_made env m \<and> stat env (datapath m) = StatError ''ENOENT'' \<and> mkdir env (datapath m) \<and>
      \<not> chown env (datapath m) (uid_of env m) (gid_of env m)"
  by (auto simp: startup_defs split: logger_outcome.splits option.splits stat_result.splits if_splits)

lemma exit7: "startup env m = Exit 7 \<longleftrightarrow>
      chroot_dir_made env m \<and> stat env (datapath m) = StatOk False"
  by (auto simp: startup_defs split: logger_outcome.splits option.splits stat_result.splits if_splits)

lemma exit8: "startup env m = Exit 8 \<longleftrightarrow>
      path_ready env m \<and> \<not> chroot env (dbroot_of m) (uid_of env m) (gid_of env m)"
  by (auto simp: startup_defs split: logger_outcome.splits option.splits stat_result.splits if_splits)

lemma exit9: "startup env m = Exit 9 \<longleftrightarrow>
      path_ready env m \<and> chroot env (dbroot_of m) (uid_of env m) (gid_of env m) \<and> \<not> level env ''/data''"
  by (auto simp: startup_defs split: logger_outcome.splits option.splits stat_result.splits if_splits)

lemma exit_range: "startup env m = Exit n \<Longrightarrow> 2 \<le> n \<and> n \<le> 9"
  by (auto simp: startup_defs split: logger_outcome.splits option.splits stat_result.splits if_splits)

lemma no_log_uncaught: "open_log env \<noteq> LoggerOk \<Longrightarrow> \<exists>e. startup env m = UncaughtException e"
  by (auto simp: startup_defs split: logger_outcome.splits)


text \<open>
  C5, amended. The db child exits with code 2 when the hooks cannot be loaded, with code
  3 when the user or the group is not found or the chroot directory cannot be made, with
  codes 4 to 7 when the data path cannot be set up (4: \<^verbatim>\<open>stat\<close> fails with an error
  other than \<^verbatim>\<open>ENOENT\<close>, 5: \<^verbatim>\<open>mkdir\<close> fails, 6: \<^verbatim>\<open>chown\<close> fails, 7: the path is
  not a directory), with code 8 when \<^verbatim>\<open>chroot\<close> fails and with code 9 when the store
  cannot be opened; each code is given exactly then, and no other exit code is used.
  When the log cannot be opened the process ends with an uncaught exception.
\<close>

theorem exit_codes:
  "(startup env m = Exit 2 \<longleftrightarrow> log_opened env m \<and> \<not> hooks_loaded env m) \<and>
   (startup env m = Exit 3 \<longleftrightarrow>
      hooks_loaded env m \<and>
      (\<not> ids_found env m \<or> setrlimit env \<and> \<not> mkdirp env (dbroot_of m))) \<and>
   (startup env m = Exit 4 \<longleftrightarrow>
      chroot_dir_made env m \<and>
      (\<exists>code. stat env (datapath m) = StatError code \<and> code \<noteq> ''ENOENT'')) \<and>
   (startup env m = Exit 5 \<longleftrightarrow>
      chroot_dir_made env m \<and> stat env (datapath m) = StatError ''ENOENT'' \<and>
      \<not> mkdir env (datapath m)) \<and>
   (startup env m = Exit 6 \<longleftrightarrow>
      chroot_dir_made env m \<and> stat env (datapath m) = StatError ''ENOENT'' \<and>
      mkdir env (datapath m) \<and> \<not> chown env (datapath m) (uid_of env m) (gid_of env m)) \<and>
   (startup env m = Exit 7 \<longleftrightarrow>
      chroot_dir_made env m \<and> stat env (datapath m) = StatOk False) \<and>
   (startup env m = Exit 8 \<longleftrightarrow>
      path_ready env m \<and> \<not> chroot env (dbroot_of m) (uid_of env m) (gid_of env m)) \<and>
   (startup env m = Exit 9 \<longleftrightarrow>
      path_ready env m \<and> chroot env (dbroot_of m) (uid_of env m) (gid_of env m) \<and>
      \<not> level env ''/data'') \<and>
   (\<forall>n. startup env m = Exit n \<longrightarrow> 2 \<le> n \<and> n \<le> 9) \<and>
   (open_log env \<noteq> LoggerOk \<longrightarrow> (\<exists>e. startup env m = UncaughtException e))"
proof -
  have range: "\<forall>n. startup env m = Exit n \<longrightarrow> 2 \<le> n \<and> n \<le> 9"
    using exit_range by blast
  have nolog: "open_log env \<noteq> LoggerOk \<longrightarrow> (\<exists>e. startup env m = UncaughtException e)"
    using no_log_uncaught by blast
  show ?thesis
    using range nolog
    by (simp only: exit2 exit3 exit4 exit5 exit6 exit7 exit8 exit9 simp_thms)
qed

theorem exit_codes_witness:
  "startup (good_env\<lparr>requireJsFromDirsSync := (\<lambda>dirs. False)\<rparr>) mydb = Exit 2 \<and>
   startup (good_env\<lparr>mkdirp := (\<lambda>d. False)\<rparr>) mydb = Exit 3 \<and>
   startup (good_env\<lparr>stat := (\<lambda>p. StatError ''EACCES'')\<rparr>) mydb = Exit 4 \<and>
   startup (good_env\<lparr>stat := (\<lambda>p. StatError ''ENOENT''), mkdir := (\<lambda>p. False)\<rparr>) mydb = Exit 5 \<and>
   startup (good_env\<lparr>stat := (\<lambda>p. StatError ''ENOENT''), chown := (\<lambda>p u g. False)\<rparr>) mydb = Exit 6 \<and>
   startup (good_env\<lparr>stat := (\<lambda>p. StatOk False)\<rparr>) mydb = Exit 7 \<and>
   startup (good_env\<lparr>chroot := (\<lambda>d u g. False)\<rparr>) mydb = Exit 8 \<and>
   startup (good_env\<lparr>level := (\<lambda>p. False)\<rparr>) mydb = Exit 9 \<and>
   (\<exists>e. startup (good_env\<lparr>open_log := LoggerErr (Error ''EACCES'')\<rparr>) mydb
          = UncaughtException e)"
proof -
  note defs = log_opened_def hooks_loaded_def ids_found_def chroot_dir_made_def path_ready_def
    uid_of_def gid_of_def good_env_def mydb_def datapath_def dbroot_of_def user_of_def
    group_of_def truthy_def
  have "startup (good_env\<lparr>requireJsFromDirsSync := (\<lambda>dirs. False)\<rparr>) mydb = Exit 2"
    using exit_codes [of "good_env\<lparr>requireJsFromDirsSync := (\<lambda>dirs. False)\<rparr>" mydb]
    by (simp add: defs)
  moreover have "startup (good_env\<lparr>mkdirp := (\<lambda>d. False)\<rparr>) mydb = Exit 3"
    using exit_codes [of "good_env\<lparr>mkdirp := (\<lambda>d. False)\<rparr>" mydb]
    by (simp add: defs)
  moreover have "startup (good_env\<lparr>stat := (\<lambda>p. StatError ''EACCES'')\<rparr>) mydb = Exit 4"
    using exit_codes [of "good_env\<lparr>stat := (\<lambda>p. StatError ''EACCES'')\<rparr>" mydb]
    by (simp add: defs)
  moreover have "startup (good_env\<lparr>stat := (\<lambda>p. StatError ''ENOENT''), mkdir := (\<lambda>p. False)\<rparr>) mydb
      = Exit 5"
    using exit_codes [of "good_env\<lparr>stat := (\<lambda>p. StatError ''ENOENT''), mkdir := (\<lambda>p. False)\<rparr>" mydb]
    by (simp add: defs)
  moreover have "startup (good_env\<lparr>stat := (\<lambda>p. StatError ''ENOENT''), chown := (\<lambda>p u g. False)\<rparr>) mydb
      = Exit 6"
    using exit_codes [of "good_env\<lparr>stat := (\<lambda>p. StatError ''ENOENT''), chown := (\<lambda>p u g. False)\<rparr>" mydb]
    by (simp add: defs)
  moreover have "startup (good_env\<lparr>stat := (\<lambda>p. StatOk False)\<rparr>) mydb = Exit 7"
    using exit_codes [of "good_env\<lparr>stat := (\<lambda>p. StatOk False)\<rparr>" mydb]
    by (simp add: defs)
  moreover have "startup (good_env\<lparr>chroot := (\<lambda>d u g. False)\<rparr>) mydb = Exit 8"
    using exit_codes [of "good_env\<lparr>chroot := (\<lambda>d u g. False)\<rparr>" mydb]
    by (simp add: defs)
  moreover have "startup (good_env\<lparr>level := (\<lambda>p. False)\<rparr>) mydb = Exit 9"
    using exit_codes [of "good_env\<lparr>level := (\<lambda>p. False)\<rparr>" mydb]
    by (simp add: defs)
  moreover have "\<exists>e. startup (good_env\<lparr>open_log := LoggerErr (Error ''EACCES'')\<rparr>) mydb
          = UncaughtException e"
    using exit_codes [of "good_env\<lparr>open_log := LoggerErr (Error ''EACCES'')\<rparr>" mydb]
    by (simp add: defs)
  ultimately show ?thesis by blast
qed


section \<open>The oplog transform\<close>

lemma push_records: "records (snd (push ra)) = records (snd ra)"
  by (cases ra; cases "fst ra") (auto simp: push_def)

lemma applyOplogUpdateModifier_records:
  "applyOplogUpdateModifier upd lookup i a = Some ra \<Longrightarrow> records (snd ra) = records a"
  by (auto simp: applyOplogUpdateModifier_def split: option.splits bson.splits)

text \<open>
  C8. For every oplog record (insert, update by full document, update by modifier or
  delete, or any other), processing it through the transform leaves every record of the
  caller as it was: where the transform returns, the records of the state after it are
  the records of the state before it.
\<close>

theorem transform_no_side_effects:
  assumes "transform upd lookup r a = Some (res, a')"
  shows "records a' = records a"
proof (cases "records a r")
  case None
  then show ?thesis using assms by (simp add: transform_def)
next
  case (Some i)
  show ?thesis
  proof (cases "ol_op i = ''u'' \<and> oplogUpdateContainsModifier i")
    case True
    then obtain ra where ra: "applyOplogUpdateModifier upd lookup i a = Some ra"
      and "push ra = (res, a')"
      using assms Some by (auto simp: transform_def)
    then show ?thesis
      using push_records [of ra] applyOplogUpdateModifier_records [OF ra] by simp
  next
    case False
    then show ?thesis using assms Some push_records [of "(applyOplogFullDoc i, a)"]
       push_records [of "(applyOplogDeleteItem i, a)"]
      by (auto simp: transform_def split: if_splits)
  qed
qed

text \<open>
  C7. For every oplog record that is an update by modifier and has the id \<open>x\<close> in its
  selector: when the transform returns, it has written exactly one lookup request, for
  the id \<open>x\<close>, onto the request channel; as long as no BSON document comes back it
  does not return; and when the document that comes back is the empty one, it fails with
  \<open>PreviousVersionNotFound\<close> (\<^verbatim>\<open>previous version of doc not found\<close>), and the state
  differs only by the request, so no new version has been pushed.
\<close>

theorem update_modifier_lookup:
  assumes "records a r = Some i" and "ol_op i = ''u''" and "oplogUpdateContainsModifier i"
    and "ol_o2 i = Some sel" and "doc_id sel = Some x"
  shows "(\<forall>res a'. transform upd lookup r a = Some (res, a') \<longrightarrow>
            reqChan a' = reqChan a @ [\<lparr>req_id = Some x, req_prefixExists = None\<rparr>]) \<and>
         (lookup \<lparr>req_id = Some x, req_prefixExists = None\<rparr> = None \<longrightarrow>
            transform upd lookup r a = None) \<and>
         (lookup \<lparr>req_id = Some x, req_prefixExists = None\<rparr> = Some BsonEmpty \<longrightarrow>
            transform upd lookup r a =
              Some (Inl PreviousVersionNotFound,
                    a\<lparr>reqChan := reqChan a @ [\<lparr>req_id = Some x, req_prefixExists = None\<rparr>]\<rparr>))"
  using assms
  by (auto simp: transform_def applyOplogUpdateModifier_def push_def
      createNewVersionByUpdateDoc_def
      split: option.splits bson.splits sum.splits if_splits)



lemmas oplog_defs = transform_def testAdapter_def testRecords_def oplogModifier_def
  oplogInsert_def oplogFullDoc_def oplogDelete_def
  oplogUpdateContainsModifier_def applyOplogUpdateModifier_def doc_id_def dagItem_def
  createNewVersionByUpdateDoc_def applyOplogFullDoc_def applyOplogDeleteItem_def push_def
  mongoSet_def

lemma transform_modifier_example:
  "transform mongoSet (\<lambda>q. Some (BsonItem dagItem)) 2 testAdapter =
     Some (Inr \<lparr>nv_id = ''foo'', nv_d = False, nv_op = (1414516132, 1),
                 nv_b = Some [(''_id'', S ''foo''), (''qux'', S ''quux''), (''bar'', S ''baz'')]\<rparr>,
           testAdapter\<lparr>reqChan := [\<lparr>req_id = Some ''foo'', req_prefixExists = None\<rparr>],
                         pushed := [\<lparr>nv_id = ''foo'', nv_d = False, nv_op = (1414516132, 1),
                                     nv_b = Some [(''_id'', S ''foo''), (''qux'', S ''quux''),
                                                  (''bar'', S ''baz'')]\<rparr>]\<rparr>)"
  by (simp add: oplog_defs)

lemma transform_insert_example:
  "transform mongoSet (\<lambda>q. None) 0 testAdapter =
     Some (Inr \<lparr>nv_id = ''bar'', nv_d = False, nv_op = (9, 1),
                 nv_b = Some [(''_id'', S ''bar''), (''baz'', S ''foobar'')]\<rparr>,
           testAdapter\<lparr>pushed := [\<lparr>nv_id = ''bar'', nv_d = False, nv_op = (9, 1),
                                     nv_b = Some [(''_id'', S ''bar''), (''baz'', S ''foobar'')]\<rparr>]\<rparr>)"
  by (simp add: oplog_defs)

lemma transform_fulldoc_example:
  "transform mongoSet (\<lambda>q. None) (Suc 0) testAdapter =
     Some (Inr \<lparr>nv_id = ''foo'', nv_d = False, nv_op = (1414516132, 1),
                 nv_b = Some [(''_id'', S ''foo''), (''_v'', S ''A''), (''qux'', S ''quux'')]\<rparr>,
           testAdapter\<lparr>pushed := [\<lparr>nv_id = ''foo'', nv_d = False, nv_op = (1414516132, 1),
                                     nv_b = Some [(''_id'', S ''foo''), (''_v'', S ''A''),
                                                  (''qux'', S ''quux'')]\<rparr>]\<rparr>)"
  by (simp add: oplog_defs)

lemma transform_delete_example:
  "transform mongoSet (\<lambda>q. None) 3 testAdapter =
     Some (Inr \<lparr>nv_id = ''foo'', nv_d = True, nv_op = (9, 1), nv_b = None\<rparr>,
           testAdapter\<lparr>pushed := [\<lparr>nv_id = ''foo'', nv_d = True, nv_op = (9, 1),
                                     nv_b = None\<rparr>]\<rparr>)"
  by (simp add: oplog_defs)

theorem transform_no_side_effects_witness:
  "map_option (\<lambda>ra. records (snd ra)) (transform mongoSet (\<lambda>q. None) 0 testAdapter)
     = Some testRecords \<and>
   map_option (\<lambda>ra. records (snd ra)) (transform mongoSet (\<lambda>q. None) (Suc 0) testAdapter)
     = Some testRecords \<and>
   map_option (\<lambda>ra. records (snd ra))
      (transform mongoSet (\<lambda>q. Some (BsonItem dagItem)) 2 testAdapter)
     = Some testRecords \<and>
   map_option (\<lambda>ra. records (snd ra)) (transform mongoSet (\<lambda>q. None) 3 testAdapter)
     = Some testRecords"
proof -
  have t: "records testAdapter = testRecords" by (simp add: testAdapter_def)
  show ?thesis
    using transform_no_side_effects [OF transform_insert_example]
      transform_no_side_effects [OF transform_fulldoc_example]
      transform_no_side_effects [OF transform_modifier_example]
      transform_no_side_effects [OF transform_delete_example]
    by (simp add: transform_insert_example transform_fulldoc_example
        transform_modifier_example transform_delete_example t)
qed

theorem update_modifier_lookup_witness:
  "transform mongoSet (\<lambda>q. Some BsonEmpty) 2 testAdapter =
     Some (Inl PreviousVersionNotFound,
           testAdapter\<lparr>reqChan := [\<lparr>req_id = Some ''foo'', req_prefixExists = None\<rparr>]\<rparr>) \<and>
   transform mongoSet (\<lambda>q. None) 2 testAdapter = None"
proof -
  have a: "records testAdapter 2 = Some oplogModifier"
    by (simp add: testAdapter_def testRecords_def)
  have b: "ol_op oplogModifier = ''u''" and c: "oplogUpdateContainsModifier oplogModifier"
    and d: "ol_o2 oplogModifier = Some [(''_id'', S ''foo''), (''_v'', S ''A'')]"
    and e: "doc_id [(''_id'', S ''foo''), (''_v'', S ''A'')] = Some ''foo''"
    by (simp_all add: oplogModifier_def oplogUpdateContainsModifier_def doc_id_def)
  show ?thesis
    using update_modifier_lookup [OF a b c d e, of mongoSet "\<lambda>q. Some BsonEmpty"]
      update_modifier_lookup [OF a b c d e, of mongoSet "\<lambda>q. None"]
    by (simp add: testAdapter_def)
qed

end
